theory Spec2Isabelle
  imports Complex_Main "HOL-Library.Log_Nat"
begin

section \<open>JavaScript numbers\<close>

text \<open>
  Every \<^verbatim>\<open>number\<close> of the program is an IEEE-754 binary64 value. A finite value is
  the rational it denotes; the two infinities and NaN are values of their own. The sign
  of zero is not kept: the only division by zero of the program divides by an unsigned
  image width or by a \<^verbatim>\<open>DOMRect\<close> extent, which are \<^verbatim>\<open>+0\<close> when they are zero.
\<close>

datatype jsnum = Num rat | PosInf | NegInf | NaN

definition pow2 :: "int \<Rightarrow> rat" where
  "pow2 e = (if 0 \<le> e then 2 ^ nat e else 1 / 2 ^ nat (- e))"

definition expo :: "rat \<Rightarrow> int" where
  \<comment> \<open>for \<open>0 < x\<close>: the exponent \<open>e\<close> with \<open>2 ^ e \<le> x < 2 ^ (e + 1)\<close>\<close>
  "expo x =
     (let d = bitlen (fst (quotient_of x)) - bitlen (snd (quotient_of x))
      in if pow2 d \<le> x then d else d - 1)"

definition ties_even :: "rat \<Rightarrow> int" where
  \<comment> \<open>the nearest integer; a tie goes to the even neighbour\<close>
  "ties_even m =
     (let f = \<lfloor>m\<rfloor>; r = m - of_int f
      in if r < 1 / 2 then f
         else if 1 / 2 < r then f + 1
         else if even f then f else f + 1)"

fun js_neg :: "jsnum \<Rightarrow> jsnum" where
  "js_neg (Num x) = Num (- x)"
| "js_neg PosInf = NegInf"
| "js_neg NegInf = PosInf"
| "js_neg NaN = NaN"

definition binary64_mag :: "rat \<Rightarrow> jsnum" where
  \<comment> \<open>for \<open>0 < a\<close>: round to nearest, ties to even, 53 significant bits, subnormals
      below \<open>2 ^ -1022\<close>; a result of \<open>2 ^ 1024\<close> or more is infinite\<close>
  "binary64_mag a =
     (let e = max (expo a) (- 1022);
          k = ties_even (a / pow2 (e - 52))
      in if 1024 \<le> e \<or> (e = 1023 \<and> k = 2 ^ 53) then PosInf
         else Num (of_int k * pow2 (e - 52)))"

definition binary64 :: "rat \<Rightarrow> jsnum" where
  \<comment> \<open>the double that an exact result is rounded to\<close>
  "binary64 x =
     (if x = 0 then Num 0
      else if 0 < x then binary64_mag x
      else js_neg (binary64_mag (- x)))"

fun js_add :: "jsnum \<Rightarrow> jsnum \<Rightarrow> jsnum" where
  "js_add (Num x) (Num y) = binary64 (x + y)"
| "js_add NaN _ = NaN"
| "js_add _ NaN = NaN"
| "js_add PosInf NegInf = NaN"
| "js_add NegInf PosInf = NaN"
| "js_add PosInf _ = PosInf"
| "js_add NegInf _ = NegInf"
| "js_add _ PosInf = PosInf"
| "js_add _ NegInf = NegInf"

definition js_sub :: "jsnum \<Rightarrow> jsnum \<Rightarrow> jsnum" where
  "js_sub a b = js_add a (js_neg b)"

definition inf_of_sign :: "bool \<Rightarrow> jsnum" where
  "inf_of_sign positive = (if positive then PosInf else NegInf)"

fun js_mul :: "jsnum \<Rightarrow> jsnum \<Rightarrow> jsnum" where
  "js_mul (Num x) (Num y) = binary64 (x * y)"
| "js_mul NaN _ = NaN"
| "js_mul _ NaN = NaN"
| "js_mul (Num x) PosInf = (if x = 0 then NaN else inf_of_sign (0 < x))"
| "js_mul (Num x) NegInf = (if x = 0 then NaN else inf_of_sign (x < 0))"
| "js_mul PosInf (Num y) = (if y = 0 then NaN else inf_of_sign (0 < y))"
| "js_mul NegInf (Num y) = (if y = 0 then NaN else inf_of_sign (y < 0))"
| "js_mul PosInf PosInf = PosInf"
| "js_mul NegInf NegInf = PosInf"
| "js_mul PosInf NegInf = NegInf"
| "js_mul NegInf PosInf = NegInf"

fun js_div :: "jsnum \<Rightarrow> jsnum \<Rightarrow> jsnum" where
  "js_div (Num x) (Num y) =
     (if y = 0 then (if x = 0 then NaN else inf_of_sign (0 < x))
      else binary64 (x / y))"
| "js_div NaN _ = NaN"
| "js_div _ NaN = NaN"
| "js_div (Num x) PosInf = Num 0"
| "js_div (Num x) NegInf = Num 0"
| "js_div PosInf (Num y) = inf_of_sign (0 \<le> y)"
| "js_div NegInf (Num y) = inf_of_sign (y < 0)"
| "js_div PosInf _ = NaN"
| "js_div NegInf _ = NaN"

fun js_le :: "jsnum \<Rightarrow> jsnum \<Rightarrow> bool" where
  "js_le (Num x) (Num y) = (x \<le> y)"
| "js_le NaN _ = False"
| "js_le _ NaN = False"
| "js_le NegInf _ = True"
| "js_le _ PosInf = True"
| "js_le PosInf _ = False"
| "js_le _ NegInf = False"

definition js_ge :: "jsnum \<Rightarrow> jsnum \<Rightarrow> bool" where
  "js_ge a b = js_le b a"

fun js_lt :: "jsnum \<Rightarrow> jsnum \<Rightarrow> bool" where
  "js_lt (Num x) (Num y) = (x < y)"
| "js_lt NaN _ = False"
| "js_lt _ NaN = False"
| "js_lt PosInf _ = False"
| "js_lt _ NegInf = False"
| "js_lt NegInf _ = True"
| "js_lt _ PosInf = True"

definition js_gt :: "jsnum \<Rightarrow> jsnum \<Rightarrow> bool" where
  "js_gt a b = js_lt b a"

definition math_min :: "jsnum \<Rightarrow> jsnum \<Rightarrow> jsnum" where
  \<comment> \<open>\<^verbatim>\<open>Math.min\<close> of two arguments: NaN when either is\<close>
  "math_min a b =
     (if a = NaN \<or> b = NaN then NaN else if js_le a b then a else b)"

fun math_floor :: "jsnum \<Rightarrow> jsnum" where
  "math_floor (Num x) = Num (of_int \<lfloor>x\<rfloor>)"
| "math_floor v = v"

definition of_uint :: "nat \<Rightarrow> jsnum" where
  \<comment> \<open>an \<^verbatim>\<open>unsigned long\<close> attribute read as a number (exact below \<open>2 ^ 53\<close>)\<close>
  "of_uint n = Num (of_nat n)"

fun to_unsigned_long :: "jsnum \<Rightarrow> nat" where
  \<comment> \<open>the Web IDL conversion run by the setter of an \<^verbatim>\<open>unsigned long\<close> attribute:
      not finite gives 0, a finite value is truncated towards zero and taken modulo
      \<open>2 ^ 32\<close>\<close>
  "to_unsigned_long (Num x) =
     nat ((if 0 \<le> x then \<lfloor>x\<rfloor> else - \<lfloor>- x\<rfloor>) mod 2 ^ 32)"
| "to_unsigned_long v = 0"

definition math_PI :: jsnum where
  \<comment> \<open>\<^verbatim>\<open>Math.PI\<close> is the double \<^verbatim>\<open>0x400921FB54442D18\<close>\<close>
  "math_PI = Num (7074237752028440 / 2 ^ 51)"

definition literal_0_1 :: jsnum where "literal_0_1 = binary64 (1 / 10)"
definition literal_0_05 :: jsnum where "literal_0_05 = binary64 (5 / 100)"
definition literal_0_95 :: jsnum where "literal_0_95 = binary64 (95 / 100)"
definition literal_1_2 :: jsnum where "literal_1_2 = binary64 (12 / 10)"


section \<open>Strings\<close>

text \<open>
  A string is a list of characters, and the captions of the model are strings of ASCII
  characters. On these \<^verbatim>\<open>toUpperCase\<close> maps the letters a to z to A to Z and leaves
  every other character as it is, which is what \<open>upper_char\<close> does. Outside ASCII the
  function of the language also maps the other cased letters, some of them to more than
  one character; the model leaves them as they are. The results on line breaking hold for
  every caption, whatever \<open>toUpperCase\<close> returns for it; only the worked examples, which
  are ASCII, evaluate it.
\<close>

definition upper_char :: "char \<Rightarrow> char" where
  "upper_char c =
     (let n = (of_char c :: nat)
      in if 97 \<le> n \<and> n \<le> 122 then char_of (n - 32) else c)"

definition toUpperCase :: "string \<Rightarrow> string" where
  "toUpperCase s = map upper_char s"

fun split_space :: "string \<Rightarrow> string list" where
  \<comment> \<open>\<^verbatim>\<open>s.split(' ')\<close>: the pieces between single spaces; never the empty array\<close>
  "split_space [] = [[]]"
| "split_space (c # cs) =
     (if c = CHR '' '' then [] # split_space cs
      else (case split_space cs of
              w # ws \<Rightarrow> (c # w) # ws
            | [] \<Rightarrow> [[c]]))"

definition digit_char :: "nat \<Rightarrow> char" where
  "digit_char d = ''0123456789'' ! d"

fun digits :: "nat \<Rightarrow> string \<Rightarrow> string" where
  \<comment> \<open>the decimal digits of \<open>n\<close> in front of \<open>acc\<close>\<close>
  "digits n acc =
     (if n < 10 then digit_char n # acc
      else digits (n div 10) (digit_char (n mod 10) # acc))"

declare digits.simps [simp del]

definition decimal :: "int \<Rightarrow> string" where
  \<comment> \<open>\<^verbatim>\<open>toString()\<close> of an integral number (below \<open>10 ^ 21\<close> in magnitude)\<close>
  "decimal i = (if i < 0 then CHR ''-'' # digits (nat (- i)) [] else digits (nat i) [])"

section \<open>The data model (\<^verbatim>\<open>types.ts\<close>)\<close>

record sticker =
  s_id :: string
  s_url :: string
  s_x :: jsnum
  s_y :: jsnum
  s_width :: jsnum
  s_height :: jsnum
  s_rotation :: jsnum

record point =
  p_x :: jsnum
  p_y :: jsnum

text \<open>
  An \<^verbatim>\<open>HTMLImageElement\<close> as the renderer sees it: the state of its load and the
  natural dimensions of its resource. \<^verbatim>\<open>complete\<close> is false exactly while the load is
  in flight; an image whose data could not be decoded is complete and broken.
\<close>

datatype load_state = Loading | Loaded | Broken

record image =
  i_src :: string
  i_state :: load_state
  i_width :: nat
  i_height :: nat

definition complete :: "image \<Rightarrow> bool" where
  "complete im = (i_state im \<noteq> Loading)"

definition img_width :: "image \<Rightarrow> nat" where
  \<comment> \<open>\<^verbatim>\<open>img.width\<close> of an element that is not rendered: the natural width once the
      image is available, 0 before\<close>
  "img_width im = (if i_state im = Loaded then i_width im else 0)"

definition img_height :: "image \<Rightarrow> nat" where
  "img_height im = (if i_state im = Loaded then i_height im else 0)"

section \<open>The sticker image cache (\<^verbatim>\<open>stickerImagesRef\<close>)\<close>

text \<open>
  A \<^verbatim>\<open>Map\<close> from sticker identifier to image element, as the list of its entries in
  insertion order.
\<close>

type_synonym cache = "(string \<times> image) list"

definition cache_has :: "cache \<Rightarrow> string \<Rightarrow> bool" where
  "cache_has m k = (k \<in> set (map fst m))"

definition cache_get :: "cache \<Rightarrow> string \<Rightarrow> image option" where
  "cache_get m k = map_of m k"

definition cache_set :: "cache \<Rightarrow> string \<Rightarrow> image \<Rightarrow> cache" where
  \<comment> \<open>an existing key keeps its place, a new key goes last\<close>
  "cache_set m k v =
     (if cache_has m k then map (\<lambda>(k', v'). if k' = k then (k', v) else (k', v')) m
      else m @ [(k, v)])"

definition cache_delete :: "cache \<Rightarrow> string \<Rightarrow> cache" where
  "cache_delete m k = filter (\<lambda>(k', v'). k' \<noteq> k) m"

definition cache_keys :: "cache \<Rightarrow> string list" where
  "cache_keys m = map fst m"

fun loadStickers :: "(string \<Rightarrow> image) \<Rightarrow> sticker list \<Rightarrow> cache \<Rightarrow> cache" where
  \<comment> \<open>the \<^verbatim>\<open>stickers.forEach\<close> of the effect; \<open>newImage url\<close> is the element that
      \<^verbatim>\<open>new Image()\<close> followed by \<^verbatim>\<open>img.src = url\<close> gives\<close>
  "loadStickers newImage [] m = m"
| "loadStickers newImage (s # ss) m =
     loadStickers newImage ss
       (if \<not> cache_has m (s_id s) then cache_set m (s_id s) (newImage (s_url s)) else m)"

fun cleanup :: "string set \<Rightarrow> string list \<Rightarrow> cache \<Rightarrow> cache" where
  \<comment> \<open>the loop over \<^verbatim>\<open>stickerImagesRef.current.keys()\<close>\<close>
  "cleanup currentIds [] m = m"
| "cleanup currentIds (k # ks) m =
     cleanup currentIds ks (if k \<notin> currentIds then cache_delete m k else m)"

definition syncCache :: "(string \<Rightarrow> image) \<Rightarrow> sticker list \<Rightarrow> cache \<Rightarrow> cache" where
  \<comment> \<open>the effect that runs when the sticker list changes\<close>
  "syncCache newImage stickers m =
     (let m1 = loadStickers newImage stickers m;
          currentIds = set (map s_id stickers)
      in cleanup currentIds (cache_keys m1) m1)"

section \<open>The canvas\<close>

text \<open>
  The 2D context keeps the drawing state the renderer sets; the surface keeps what has
  been painted since it was last cleared. Each painting call is recorded with the part
  of the drawing state that decides its pixels, so two surfaces of the same size with
  the same record show the same pixels.
\<close>

datatype xform = Translate jsnum jsnum | Rotate jsnum

record ctx_state =
  fillStyle :: string
  strokeStyle :: string
  lineWidth :: jsnum
  lineJoin :: string
  textAlign :: string
  textBaseline :: string
  font :: string
  transform :: "xform list"

definition default_ctx :: ctx_state where
  "default_ctx =
     \<lparr>fillStyle = ''#000000'', strokeStyle = ''#000000'', lineWidth = Num 1,
      lineJoin = ''miter'', textAlign = ''start'', textBaseline = ''alphabetic'',
      font = ''10px sans-serif'', transform = []\<rparr>"

record stroke_style =
  st_style :: string
  st_width :: jsnum
  st_join :: string

record text_style =
  tx_font :: string
  tx_align :: string
  tx_baseline :: string

datatype paint =
    DrawImage image jsnum jsnum jsnum jsnum "xform list"
  | StrokeRect jsnum jsnum jsnum jsnum stroke_style "xform list"
  | StrokeText string jsnum jsnum stroke_style text_style "xform list"
  | FillText string jsnum jsnum string text_style "xform list"
  | ClearRect jsnum jsnum jsnum jsnum "xform list"

record canvas =
  c_width :: nat
  c_height :: nat
  has_2d :: bool
  ctx :: ctx_state
  saved :: "ctx_state list"
  painted :: "paint list"

datatype error = InvalidStateError

definition set_size :: "nat \<Rightarrow> nat \<Rightarrow> canvas \<Rightarrow> canvas" where
  \<comment> \<open>assigning \<^verbatim>\<open>canvas.width\<close> and \<^verbatim>\<open>canvas.height\<close>: the surface is cleared and
      the context is reset to its defaults\<close>
  "set_size w h c =
     c\<lparr>c_width := w, c_height := h, ctx := default_ctx, saved := [], painted := []\<rparr>"

definition clearRect :: "jsnum \<Rightarrow> jsnum \<Rightarrow> jsnum \<Rightarrow> jsnum \<Rightarrow> canvas \<Rightarrow> canvas" where
  \<comment> \<open>clearing the whole surface under the identity transform forgets what was
      painted; any other clear is one more entry of the record\<close>
  "clearRect x y w h c =
     (if transform (ctx c) = [] \<and> x = Num 0 \<and> y = Num 0
         \<and> w = of_uint (c_width c) \<and> h = of_uint (c_height c)
      then c\<lparr>painted := []\<rparr>
      else c\<lparr>painted := painted c @ [ClearRect x y w h (transform (ctx c))]\<rparr>)"

definition drawImage ::
  "image \<Rightarrow> jsnum \<Rightarrow> jsnum \<Rightarrow> jsnum \<Rightarrow> jsnum \<Rightarrow> canvas \<Rightarrow> error + canvas" where
  \<comment> \<open>a broken image raises; an image that is not decoded yet, or has no extent,
      paints nothing\<close>
  "drawImage im dx dy dw dh c =
     (case i_state im of
        Broken \<Rightarrow> Inl InvalidStateError
      | Loading \<Rightarrow> Inr c
      | Loaded \<Rightarrow>
          if i_width im = 0 \<or> i_height im = 0 then Inr c
          else Inr (c\<lparr>painted := painted c @ [DrawImage im dx dy dw dh (transform (ctx c))]\<rparr>))"

definition save :: "canvas \<Rightarrow> canvas" where
  "save c = c\<lparr>saved := ctx c # saved c\<rparr>"

definition restore :: "canvas \<Rightarrow> canvas" where
  "restore c = (case saved c of [] \<Rightarrow> c | s # ss \<Rightarrow> c\<lparr>ctx := s, saved := ss\<rparr>)"

definition translate :: "jsnum \<Rightarrow> jsnum \<Rightarrow> canvas \<Rightarrow> canvas" where
  "translate x y c = c\<lparr>ctx := (ctx c)\<lparr>transform := transform (ctx c) @ [Translate x y]\<rparr>\<rparr>"

definition rotate_ctx :: "jsnum \<Rightarrow> canvas \<Rightarrow> canvas" where
  "rotate_ctx a c = c\<lparr>ctx := (ctx c)\<lparr>transform := transform (ctx c) @ [Rotate a]\<rparr>\<rparr>"

definition set_lineWidth :: "jsnum \<Rightarrow> canvas \<Rightarrow> canvas" where
  \<comment> \<open>zero, negative, infinite and NaN values are ignored by the setter\<close>
  "set_lineWidth v c =
     (case v of
        Num x \<Rightarrow> if 0 < x then c\<lparr>ctx := (ctx c)\<lparr>lineWidth := v\<rparr>\<rparr> else c
      | _ \<Rightarrow> c)"

definition stroke_of :: "ctx_state \<Rightarrow> stroke_style" where
  "stroke_of s = \<lparr>st_style = strokeStyle s, st_width = lineWidth s, st_join = lineJoin s\<rparr>"

definition text_of :: "ctx_state \<Rightarrow> text_style" where
  "text_of s = \<lparr>tx_font = font s, tx_align = textAlign s, tx_baseline = textBaseline s\<rparr>"

definition strokeRect :: "jsnum \<Rightarrow> jsnum \<Rightarrow> jsnum \<Rightarrow> jsnum \<Rightarrow> canvas \<Rightarrow> canvas" where
  "strokeRect x y w h c =
     c\<lparr>painted := painted c @ [StrokeRect x y w h (stroke_of (ctx c)) (transform (ctx c))]\<rparr>"

definition strokeText :: "string \<Rightarrow> jsnum \<Rightarrow> jsnum \<Rightarrow> canvas \<Rightarrow> canvas" where
  "strokeText t x y c =
     c\<lparr>painted := painted c @
        [StrokeText t x y (stroke_of (ctx c)) (text_of (ctx c)) (transform (ctx c))]\<rparr>"

definition fillText :: "string \<Rightarrow> jsnum \<Rightarrow> jsnum \<Rightarrow> canvas \<Rightarrow> canvas" where
  "fillText t x y c =
     c\<lparr>painted := painted c @
        [FillText t x y (fillStyle (ctx c)) (text_of (ctx c)) (transform (ctx c))]\<rparr>"

section \<open>The renderer (\<^verbatim>\<open>drawCanvas\<close> of \<^verbatim>\<open>MemeCanvas.tsx\<close>)\<close>

datatype status = Finished | Threw error

definition drawSticker :: "cache \<Rightarrow> string option \<Rightarrow> sticker \<Rightarrow> canvas \<Rightarrow> status \<times> canvas" where
  \<comment> \<open>the body of \<^verbatim>\<open>stickers.forEach\<close>; a pass that throws leaves the canvas as it
      was when \<^verbatim>\<open>drawImage\<close> raised\<close>
  "drawSticker m draggingId s c =
     (case cache_get m (s_id s) of
        None \<Rightarrow> (Finished, c)
      | Some sImg \<Rightarrow>
          if complete sImg then
            (let c1 = save c;
                 c2 = translate (s_x s) (s_y s) c1;
                 c3 = rotate_ctx (js_div (js_mul (s_rotation s) math_PI) (Num 180)) c2
             in case drawImage sImg (js_div (js_neg (s_width s)) (Num 2))
                       (js_div (js_neg (s_height s)) (Num 2)) (s_width s) (s_height s) c3 of
                  Inl e \<Rightarrow> (Threw e, c3)
                | Inr c4 \<Rightarrow>
                    (let c5 =
                       (if draggingId = Some (s_id s) then
                          strokeRect (js_div (js_neg (s_width s)) (Num 2))
                            (js_div (js_neg (s_height s)) (Num 2)) (s_width s) (s_height s)
                            (set_lineWidth (Num 2)
                               (c4\<lparr>ctx := (ctx c4)\<lparr>strokeStyle := ''#a855f7''\<rparr>\<rparr>))
                        else c4)
                     in (Finished, restore c5)))
          else (Finished, c))"

fun drawStickers :: "cache \<Rightarrow> string option \<Rightarrow> sticker list \<Rightarrow> canvas \<Rightarrow> status \<times> canvas" where
  "drawStickers m draggingId [] c = (Finished, c)"
| "drawStickers m draggingId (s # ss) c =
     (case drawSticker m draggingId s c of
        (Finished, c') \<Rightarrow> drawStickers m draggingId ss c'
      | (Threw e, c') \<Rightarrow> (Threw e, c'))"

fun wrapLoop ::
  "(string \<Rightarrow> jsnum) \<Rightarrow> jsnum \<Rightarrow> string list \<Rightarrow> nat \<Rightarrow> string \<Rightarrow> string list \<Rightarrow> string list" where
  \<comment> \<open>the \<^verbatim>\<open>for\<close> loop of \<^verbatim>\<open>drawText\<close> from index \<open>n\<close> on, followed by the final
      \<^verbatim>\<open>lines.push(line)\<close>\<close>
  "wrapLoop meas maxWidth [] n line lines = lines @ [line]"
| "wrapLoop meas maxWidth (w # ws) n line lines =
     (let testLine = line @ w @ '' '';
          testWidth = meas testLine
      in if js_gt testWidth maxWidth \<and> 0 < n
         then wrapLoop meas maxWidth ws (Suc n) (w @ '' '') (lines @ [line])
         else wrapLoop meas maxWidth ws (Suc n) testLine lines)"

definition wrapText :: "(string \<Rightarrow> jsnum) \<Rightarrow> jsnum \<Rightarrow> string \<Rightarrow> string list" where
  "wrapText meas maxWidth text =
     wrapLoop meas maxWidth (split_space (toUpperCase text)) 0 [] []"

fun drawLines :: "string list \<Rightarrow> nat \<Rightarrow> jsnum \<Rightarrow> jsnum \<Rightarrow> jsnum \<Rightarrow> canvas \<Rightarrow> canvas" where
  \<comment> \<open>\<^verbatim>\<open>lines.forEach((l, i) => ...)\<close> from index \<open>i\<close> on\<close>
  "drawLines [] i x currentY lineHeight c = c"
| "drawLines (l # ls) i x currentY lineHeight c =
     drawLines ls (Suc i) x currentY lineHeight
       (fillText l x (js_add currentY (js_mul (of_uint i) lineHeight))
          (strokeText l x (js_add currentY (js_mul (of_uint i) lineHeight)) c))"

definition drawText ::
  "(string \<Rightarrow> string \<Rightarrow> jsnum) \<Rightarrow> jsnum \<Rightarrow> string \<Rightarrow> jsnum \<Rightarrow> string \<Rightarrow> canvas \<Rightarrow> canvas" where
  \<comment> \<open>\<open>measureText fnt t\<close> is the width \<^verbatim>\<open>ctx.measureText(t).width\<close> under the font
      \<open>fnt\<close>; \<open>fontSize\<close> is the variable of the enclosing \<^verbatim>\<open>drawCanvas\<close>\<close>
  "drawText measureText fontSize text y baseline c =
     (if text = [] then c
      else
        let x = js_div (of_uint (c_width c)) (Num 2);
            c1 = c\<lparr>ctx := (ctx c)\<lparr>textBaseline := baseline\<rparr>\<rparr>;
            maxWidth = js_mul (of_uint (c_width c)) literal_0_95;
            lineHeight = js_mul fontSize literal_1_2;
            lines = wrapText (measureText (font (ctx c1))) maxWidth text;
            currentY =
              (if baseline = ''bottom''
               then js_sub y (js_mul (of_uint (length lines - 1)) lineHeight)
               else y)
        in drawLines lines 0 x currentY lineHeight c1)"

definition js_strict_ne :: "jsnum \<Rightarrow> jsnum \<Rightarrow> bool" where
  "js_strict_ne a b = (a = NaN \<or> b = NaN \<or> a \<noteq> b)"

fun number_string :: "jsnum \<Rightarrow> string" where
  \<comment> \<open>the string a template literal gives for a number; the finite case is the one of an
      integral value\<close>
  "number_string (Num x) = decimal \<lfloor>x\<rfloor>"
| "number_string PosInf = ''Infinity''"
| "number_string NegInf = ''-Infinity''"
| "number_string NaN = ''NaN''"

record props =
  topText :: string
  bottomText :: string
  stickers :: "sticker list"

record outcome =
  surface :: "canvas option"
  onload_set :: bool
  status :: status

definition textPhase :: "(string \<Rightarrow> string \<Rightarrow> jsnum) \<Rightarrow> props \<Rightarrow> canvas \<Rightarrow> canvas" where
  \<comment> \<open>from \<^verbatim>\<open>// Configure Text Styles\<close> to the end of \<^verbatim>\<open>drawCanvas\<close>\<close>
  "textPhase measureText pr c =
     (let fontSize = math_floor (js_mul (of_uint (c_width c)) literal_0_1);
          c1 = c\<lparr>ctx := (ctx c)\<lparr>fillStyle := ''white'', strokeStyle := ''black''\<rparr>\<rparr>;
          c2 = set_lineWidth (math_floor (js_div fontSize (Num 8))) c1;
          c3 = c2\<lparr>ctx := (ctx c2)\<lparr>textAlign := ''center'',
                  font := ''900 '' @ number_string fontSize @ ''px Impact, sans-serif'',
                  lineJoin := ''round''\<rparr>\<rparr>;
          c4 = drawText measureText fontSize (topText pr)
                 (js_mul (of_uint (c_height c3)) literal_0_05) ''top'' c3
      in drawText measureText fontSize (bottomText pr)
           (js_mul (of_uint (c_height c4)) literal_0_95) ''bottom'' c4)"

definition MAX_WIDTH :: jsnum where
  "MAX_WIDTH = Num 800"

definition scale_of :: "image \<Rightarrow> jsnum" where
  "scale_of img = math_min (Num 1) (js_div MAX_WIDTH (of_uint (img_width img)))"

definition sizePhase :: "image \<Rightarrow> canvas \<Rightarrow> canvas" where
  \<comment> \<open>the \<^verbatim>\<open>if\<close> that sets the dimensions or clears the surface\<close>
  "sizePhase img c =
     (let scale = scale_of img;
          w = js_mul (of_uint (img_width img)) scale;
          h = js_mul (of_uint (img_height img)) scale
      in if js_strict_ne (of_uint (c_width c)) w \<or> js_strict_ne (of_uint (c_height c)) h
         then set_size (to_unsigned_long w) (to_unsigned_long h) c
         else clearRect (Num 0) (Num 0) (of_uint (c_width c)) (of_uint (c_height c)) c)"

definition drawCanvas ::
  "(string \<Rightarrow> string \<Rightarrow> jsnum) \<Rightarrow> image \<Rightarrow> cache \<Rightarrow> string option \<Rightarrow> props
     \<Rightarrow> canvas option \<Rightarrow> outcome" where
  \<comment> \<open>\<open>img\<close> is the element that \<^verbatim>\<open>new Image()\<close> and \<^verbatim>\<open>img.src = imageSrc\<close> give
      in this pass; \<open>cv\<close> is \<^verbatim>\<open>canvasRef.current\<close>\<close>
  "drawCanvas measureText img m draggingId pr cv =
     (case cv of
        None \<Rightarrow> \<lparr>surface = None, onload_set = False, status = Finished\<rparr>
      | Some c \<Rightarrow>
          (if \<not> has_2d c then \<lparr>surface = Some c, onload_set = False, status = Finished\<rparr>
           else
             (let onl = \<not> complete img;
                  c1 = sizePhase img c
              in (case drawImage img (Num 0) (Num 0) (of_uint (c_width c1))
                         (of_uint (c_height c1)) c1 of
                    Inl e \<Rightarrow> \<lparr>surface = Some c1, onload_set = onl, status = Threw e\<rparr>
                  | Inr c2 \<Rightarrow>
                      (case drawStickers m draggingId (stickers pr) c2 of
                         (Threw e, c3) \<Rightarrow>
                           \<lparr>surface = Some c3, onload_set = onl, status = Threw e\<rparr>
                       | (Finished, c3) \<Rightarrow>
                           \<lparr>surface = Some (textPhase measureText pr c3), onload_set = onl,
                            status = Finished\<rparr>)))))"

section \<open>Pointer interaction (\<^verbatim>\<open>MemeCanvas.tsx\<close>)\<close>

record mouse_event =
  clientX :: jsnum
  clientY :: jsnum

record dom_rect =
  r_left :: jsnum
  r_top :: jsnum
  r_width :: jsnum
  r_height :: jsnum

record drag_state =
  draggingId :: "string option"
  dragOffset :: point

definition getMousePos :: "canvas option \<Rightarrow> dom_rect \<Rightarrow> mouse_event \<Rightarrow> point" where
  \<comment> \<open>\<open>rect\<close> is what \<^verbatim>\<open>canvas.getBoundingClientRect()\<close> returns\<close>
  "getMousePos cv rect evt =
     (case cv of
        None \<Rightarrow> \<lparr>p_x = Num 0, p_y = Num 0\<rparr>
      | Some c \<Rightarrow>
          let scaleX = js_div (of_uint (c_width c)) (r_width rect);
              scaleY = js_div (of_uint (c_height c)) (r_height rect)
          in \<lparr>p_x = js_mul (js_sub (clientX evt) (r_left rect)) scaleX,
              p_y = js_mul (js_sub (clientY evt) (r_top rect)) scaleY\<rparr>)"

definition inBox :: "point \<Rightarrow> sticker \<Rightarrow> bool" where
  \<comment> \<open>the condition of the \<^verbatim>\<open>if\<close> in \<^verbatim>\<open>handleMouseDown\<close>\<close>
  "inBox pos s =
     (js_ge (p_x pos) (js_sub (s_x s) (js_div (s_width s) (Num 2))) \<and>
      js_le (p_x pos) (js_add (s_x s) (js_div (s_width s) (Num 2))) \<and>
      js_ge (p_y pos) (js_sub (s_y s) (js_div (s_height s) (Num 2))) \<and>
      js_le (p_y pos) (js_add (s_y s) (js_div (s_height s) (Num 2))))"

fun hitLoop :: "point \<Rightarrow> sticker list \<Rightarrow> nat \<Rightarrow> drag_state \<Rightarrow> drag_state" where
  \<comment> \<open>\<^verbatim>\<open>for (let i = stickers.length - 1; i >= 0; i--)\<close> with \<open>i + 1\<close> as the counter\<close>
  "hitLoop pos ss 0 st = st"
| "hitLoop pos ss (Suc i) st =
     (let s = ss ! i
      in if inBox pos s
         then \<lparr>draggingId = Some (s_id s),
               dragOffset = \<lparr>p_x = js_sub (p_x pos) (s_x s), p_y = js_sub (p_y pos) (s_y s)\<rparr>\<rparr>
         else hitLoop pos ss i st)"

definition handleMouseDown ::
  "canvas option \<Rightarrow> dom_rect \<Rightarrow> sticker list \<Rightarrow> drag_state \<Rightarrow> mouse_event \<Rightarrow> drag_state" where
  "handleMouseDown cv rect ss st e = hitLoop (getMousePos cv rect e) ss (length ss) st"

definition falsy :: "string option \<Rightarrow> bool" where
  \<comment> \<open>\<^verbatim>\<open>!draggingId\<close>: \<^verbatim>\<open>null\<close> and the empty string\<close>
  "falsy v = (case v of None \<Rightarrow> True | Some t \<Rightarrow> t = [])"

definition handleMouseMove ::
  "canvas option \<Rightarrow> dom_rect \<Rightarrow> sticker list \<Rightarrow> drag_state \<Rightarrow> mouse_event
     \<Rightarrow> sticker list option" where
  \<comment> \<open>the argument of \<^verbatim>\<open>onStickersChange\<close>, or \<open>None\<close> when it is not called\<close>
  "handleMouseMove cv rect ss st e =
     (if falsy (draggingId st) then None
      else
        let pos = getMousePos cv rect e
        in Some (map (\<lambda>s. if Some (s_id s) = draggingId st
                            then s\<lparr>s_x := js_sub (p_x pos) (p_x (dragOffset st)),
                                  s_y := js_sub (p_y pos) (p_y (dragOffset st))\<rparr>
                            else s) ss))"

definition handleMouseUp :: "drag_state \<Rightarrow> drag_state" where
  "handleMouseUp st = st\<lparr>draggingId := None\<rparr>"

definition handleMouseLeave :: "drag_state \<Rightarrow> drag_state" where
  "handleMouseLeave st = st\<lparr>draggingId := None\<rparr>"

fun moves ::
  "canvas option \<Rightarrow> drag_state \<Rightarrow> (dom_rect \<times> mouse_event) list \<Rightarrow> sticker list \<Rightarrow> sticker list" where
  \<comment> \<open>a run of pointer-move events; the owner stores each emitted list and passes it
      back as the \<^verbatim>\<open>stickers\<close> prop\<close>
  "moves cv st [] ss = ss"
| "moves cv st ((rect, e) # es) ss =
     moves cv st es (case handleMouseMove cv rect ss st e of None \<Rightarrow> ss | Some ss' \<Rightarrow> ss')"

section \<open>The owner of the sticker list (\<^verbatim>\<open>App.tsx\<close>)\<close>

definition newSticker :: "int \<Rightarrow> string \<Rightarrow> sticker" where
  \<comment> \<open>\<open>now\<close> is the value of \<^verbatim>\<open>Date.now()\<close>\<close>
  "newSticker now stickerBase64 =
     \<lparr>s_id = decimal now, s_url = stickerBase64, s_x = Num 150, s_y = Num 150,
      s_width = Num 100, s_height = Num 100, s_rotation = Num 0\<rparr>"

definition handleGenerateSticker :: "string option \<Rightarrow> int \<Rightarrow> sticker list \<Rightarrow> sticker list" where
  \<comment> \<open>the effect on the list; \<open>None\<close> is a \<^verbatim>\<open>generateSticker\<close> that threw\<close>
  "handleGenerateSticker generated now prev =
     (case generated of
        None \<Rightarrow> prev
      | Some stickerBase64 \<Rightarrow> prev @ [newSticker now stickerBase64])"

definition removeSticker :: "string \<Rightarrow> sticker list \<Rightarrow> sticker list" where
  "removeSticker i prev = filter (\<lambda>s. s_id s \<noteq> i) prev"

datatype action =
    Generate "string option" int
  | Remove string
  | Move "canvas option" dom_rect drag_state mouse_event
  | ClearAll

fun step :: "action \<Rightarrow> sticker list \<Rightarrow> sticker list" where
  "step (Generate generated now) ss = handleGenerateSticker generated now ss"
| "step (Remove i) ss = removeSticker i ss"
| "step (Move cv rect st e) ss =
     (case handleMouseMove cv rect ss st e of None \<Rightarrow> ss | Some ss' \<Rightarrow> ss')"
| "step ClearAll ss = []"

fun run :: "action list \<Rightarrow> sticker list \<Rightarrow> sticker list" where
  "run [] ss = ss"
| "run (a # as) ss = run as (step a ss)"

fun fresh_clock :: "action list \<Rightarrow> sticker list \<Rightarrow> bool" where
  \<comment> \<open>every sticker is created at a clock reading whose digits are not the identifier
      of a sticker of the list at that moment\<close>
  "fresh_clock [] ss = True"
| "fresh_clock (a # as) ss =
     ((case a of
         Generate (Some u) now \<Rightarrow> decimal now \<notin> set (map s_id ss)
       | _ \<Rightarrow> True)
      \<and> fresh_clock as (step a ss))"

section \<open>Example inputs\<close>

definition ex_canvas :: canvas where
  "ex_canvas =
     \<lparr>c_width = 800, c_height = 450, has_2d = True, ctx = default_ctx, saved = [],
      painted = []\<rparr>"

definition ex_rect :: dom_rect where
  "ex_rect = \<lparr>r_left = Num 0, r_top = Num 0, r_width = Num 800, r_height = Num 450\<rparr>"

definition ex_idle :: drag_state where
  "ex_idle = \<lparr>draggingId = None, dragOffset = \<lparr>p_x = Num 0, p_y = Num 0\<rparr>\<rparr>"

definition ex_drag :: drag_state where
  "ex_drag = \<lparr>draggingId = Some ''1'', dragOffset = \<lparr>p_x = Num 0, p_y = Num 0\<rparr>\<rparr>"

definition ex_pair :: "sticker list" where
  \<comment> \<open>two overlapping stickers, the second drawn over the first\<close>
  "ex_pair = [newSticker 1 ''a'', (newSticker 2 ''b'')\<lparr>s_x := Num 180\<rparr>]"

definition ex_click :: mouse_event where
  "ex_click = \<lparr>clientX = Num 170, clientY = Num 150\<rparr>"

definition ex_far :: mouse_event where
  "ex_far = \<lparr>clientX = Num 600, clientY = Num 400\<rparr>"

definition ex_to :: mouse_event where
  "ex_to = \<lparr>clientX = Num 300, clientY = Num 200\<rparr>"

definition ex_session :: "action list" where
  "ex_session =
     [Generate (Some ''a'') 1, Generate (Some ''b'') 2,
      Move (Some ex_canvas) ex_rect ex_drag ex_to, Remove ''1'', Generate None 2,
      Generate (Some ''c'') 3]"

definition ex_newImage :: "string \<Rightarrow> image" where
  \<comment> \<open>an element whose load has just started\<close>
  "ex_newImage u = \<lparr>i_src = u, i_state = Loading, i_width = 0, i_height = 0\<rparr>"

definition ex_loaded :: "string \<Rightarrow> image" where
  "ex_loaded u = \<lparr>i_src = u, i_state = Loaded, i_width = 64, i_height = 64\<rparr>"

definition ex_measure :: "string \<Rightarrow> string \<Rightarrow> jsnum" where
  \<comment> \<open>a font in which every character is 10 pixels wide\<close>
  "ex_measure fnt t = Num (of_nat (10 * length t))"


definition ex_wide :: image where
  "ex_wide = \<lparr>i_src = ''bg'', i_state = Loaded, i_width = 1600, i_height = 900\<rparr>"

definition ex_1078 :: image where
  "ex_1078 = \<lparr>i_src = ''bg'', i_state = Loaded, i_width = 1078, i_height = 900\<rparr>"

definition ex_props :: props where
  "ex_props = \<lparr>topText = ''hi'', bottomText = [], stickers = [newSticker 1 ''a'']\<rparr>"


definition ex_edge :: sticker where
  \<comment> \<open>a sticker dragged to \<^verbatim>\<open>x = 465.2723123123123\<close>, the double
      \<open>8185157079513823 / 2 ^ 44\<close>\<close>
  "ex_edge = (newSticker 1 ''a'')\<lparr>s_x := Num (8185157079513823 / 17592186044416)\<rparr>"

definition ex_edge_click :: mouse_event where
  \<comment> \<open>a pointer-down at \<^verbatim>\<open>clientX = 515.2723123123124\<close>, the double
      \<open>283273949429207 / 2 ^ 39\<close>\<close>
  "ex_edge_click = \<lparr>clientX = Num (283273949429207 / 549755813888), clientY = Num 150\<rparr>"

definition ex_broken :: "string \<Rightarrow> image" where
  \<comment> \<open>an element whose data could not be decoded: the load is over, so
      \<^verbatim>\<open>complete\<close> is true, and the image is broken\<close>
  "ex_broken u = \<lparr>i_src = u, i_state = Broken, i_width = 0, i_height = 0\<rparr>"

definition ex_leaked :: canvas where
  \<comment> \<open>the surface of \<open>ex_canvas\<close> with the background painted and the drawing state of a
      sticker at (150, 150) saved and not restored\<close>
  "ex_leaked =
     ex_canvas\<lparr>ctx := default_ctx\<lparr>transform := [Translate (Num 150) (Num 150), Rotate (Num 0)]\<rparr>,
               saved := [default_ctx],
               painted := [DrawImage ex_wide (Num 0) (Num 0) (Num 800) (Num 450) []]\<rparr>"

section \<open>Functions that describe what a pass paints\<close>

definition drawable :: "cache \<Rightarrow> sticker \<Rightarrow> bool" where
  \<comment> \<open>the condition \<^verbatim>\<open>sImg && sImg.complete\<close> of the sticker loop\<close>
  "drawable m s = (case cache_get m (s_id s) of None \<Rightarrow> False | Some sImg \<Rightarrow> complete sImg)"

definition broken_free :: "cache \<Rightarrow> sticker list \<Rightarrow> bool" where
  \<comment> \<open>no sticker of the list has a broken image in the cache\<close>
  "broken_free m ss =
     list_all (\<lambda>s. case cache_get m (s_id s) of None \<Rightarrow> True | Some im \<Rightarrow> i_state im \<noteq> Broken) ss"

definition imagePaint ::
  "image \<Rightarrow> jsnum \<Rightarrow> jsnum \<Rightarrow> jsnum \<Rightarrow> jsnum \<Rightarrow> xform list \<Rightarrow> paint list" where
  \<comment> \<open>what a \<^verbatim>\<open>drawImage\<close> that returns adds to the surface\<close>
  "imagePaint im dx dy dw dh xf =
     (if i_state im = Loaded \<and> 0 < i_width im \<and> 0 < i_height im
      then [DrawImage im dx dy dw dh xf] else [])"

definition stickerPaint :: "cache \<Rightarrow> xform list \<Rightarrow> sticker \<Rightarrow> paint list" where
  \<comment> \<open>what the sticker loop adds for one sticker when nothing is dragged\<close>
  "stickerPaint m xf s =
     (case cache_get m (s_id s) of
        None \<Rightarrow> []
      | Some sImg \<Rightarrow>
          imagePaint sImg (js_div (js_neg (s_width s)) (Num 2))
            (js_div (js_neg (s_height s)) (Num 2)) (s_width s) (s_height s)
            (xf @ [Translate (s_x s) (s_y s),
                   Rotate (js_div (js_mul (s_rotation s) math_PI) (Num 180))]))"

fun linePaint :: "string list \<Rightarrow> nat \<Rightarrow> jsnum \<Rightarrow> jsnum \<Rightarrow> jsnum \<Rightarrow> ctx_state \<Rightarrow> paint list" where
  \<comment> \<open>what \<^verbatim>\<open>lines.forEach\<close> adds under the drawing state \<open>s\<close>\<close>
  "linePaint [] i x currentY lineHeight s = []"
| "linePaint (l # ls) i x currentY lineHeight s =
     [StrokeText l x (js_add currentY (js_mul (of_uint i) lineHeight)) (stroke_of s) (text_of s)
        (transform s),
      FillText l x (js_add currentY (js_mul (of_uint i) lineHeight)) (fillStyle s) (text_of s)
        (transform s)]
     @ linePaint ls (Suc i) x currentY lineHeight s"

definition textPaint ::
  "(string \<Rightarrow> string \<Rightarrow> jsnum) \<Rightarrow> jsnum \<Rightarrow> string \<Rightarrow> jsnum \<Rightarrow> string \<Rightarrow> nat \<Rightarrow> ctx_state
     \<Rightarrow> paint list" where
  \<comment> \<open>what \<^verbatim>\<open>drawText\<close> adds for a non-empty caption on a surface of width \<open>w\<close>\<close>
  "textPaint mt fs text y bl w s =
     (let lines = wrapText (mt (font s)) (js_mul (of_uint w) literal_0_95) text
      in linePaint lines 0 (js_div (of_uint w) (Num 2))
           (if bl = ''bottom''
            then js_sub y (js_mul (of_uint (length lines - 1)) (js_mul fs literal_1_2))
            else y)
           (js_mul fs literal_1_2) (s\<lparr>textBaseline := bl\<rparr>))"

definition textCtx :: "nat \<Rightarrow> ctx_state \<Rightarrow> ctx_state" where
  \<comment> \<open>the drawing state after \<^verbatim>\<open>// Configure Text Styles\<close> on a surface of width \<open>w\<close>\<close>
  "textCtx w s =
     (let fontSize = math_floor (js_mul (of_uint w) literal_0_1);
          v = math_floor (js_div fontSize (Num 8));
          s1 = s\<lparr>fillStyle := ''white'', strokeStyle := ''black''\<rparr>;
          s2 = (case v of Num x \<Rightarrow> if 0 < x then s1\<lparr>lineWidth := v\<rparr> else s1 | _ \<Rightarrow> s1)
      in s2\<lparr>textAlign := ''center'',
             font := ''900 '' @ number_string fontSize @ ''px Impact, sans-serif'',
             lineJoin := ''round''\<rparr>)"

section \<open>Doubles are exact on the integers below \<open>2 ^ 53\<close>\<close>

lemma ties_even_of_int [simp]: "ties_even (of_int m) = m"
  by (simp add: ties_even_def)

lemma bitlen_le_53:
  assumes "0 < n" "n < 2 ^ 53"
  shows "bitlen n \<le> 53"
proof -
  have "2 ^ nat (bitlen n - 1) \<le> n" using bitlen_bounds [OF assms(1)] by simp
  also note assms(2)
  finally have "nat (bitlen n - 1) < 53" by (rule power_less_imp_less_exp [rotated]) simp
  then show ?thesis by linarith
qed

lemma expo_of_int_le:
  assumes "0 < n" "n < 2 ^ 53"
  shows "expo (of_int n) \<le> 52"
proof -
  have "bitlen 1 = 1" by (simp add: bitlen_alt_def)
  then show ?thesis
    using bitlen_le_53 [OF assms] by (simp add: expo_def Let_def)
qed

lemma binary64_mag_int:
  assumes "0 < n" "n < 2 ^ 53"
  shows "binary64_mag (of_int n) = Num (of_int n)"
proof -
  define e where "e = max (expo (of_int n)) (- 1022)"
  have e: "e \<le> 52" "- 1022 \<le> e" using expo_of_int_le [OF assms] by (auto simp: e_def)
  then have p: "pow2 (e - 52) = 1 / 2 ^ nat (52 - e)" by (simp add: pow2_def)
  have "(of_int n :: rat) / pow2 (e - 52) = of_int (n * 2 ^ nat (52 - e))" by (simp add: p)
  then have k: "ties_even (of_int n / pow2 (e - 52)) = n * 2 ^ nat (52 - e)"
    by (simp only: ties_even_of_int)
  have r: "(of_int (n * 2 ^ nat (52 - e)) :: rat) * pow2 (e - 52) = of_int n" by (simp add: p)
  have ne: "\<not> (1024 \<le> e \<or> e = 1023 \<and> n * 2 ^ nat (52 - e) = 2 ^ 53)" using e by simp
  show ?thesis
    unfolding binary64_mag_def Let_def e_def [symmetric] k
    by (simp only: ne r if_False)
qed

lemma binary64_of_int:
  assumes "\<bar>n\<bar> < 2 ^ 53"
  shows "binary64 (of_int n) = Num (of_int n)"
proof -
  consider "n = 0" | "0 < n" | "n < 0" by linarith
  then show ?thesis
  proof cases
    case 1
    then show ?thesis by (simp add: binary64_def)
  next
    case 2
    then show ?thesis using assms by (simp add: binary64_def binary64_mag_int)
  next
    case 3
    then have "binary64_mag (of_int (- n)) = Num (of_int (- n))"
      using assms by (intro binary64_mag_int) auto
    then show ?thesis using 3 by (simp add: binary64_def)
  qed
qed

lemma binary64_numeral [simp]:
  "numeral k < (2 ^ 53 :: int) \<Longrightarrow> binary64 (numeral k) = Num (numeral k)"
  "numeral k < (2 ^ 53 :: int) \<Longrightarrow> binary64 (- numeral k) = Num (- numeral k)"
  "binary64 0 = Num 0" "binary64 1 = Num 1"
  using binary64_of_int [of "numeral k"] binary64_of_int [of "- numeral k"] binary64_of_int [of 1]
  by (simp_all add: binary64_def)

section \<open>Rounding to a double\<close>

lemma pow2_powi: "pow2 e = 2 powi e"
  by (simp add: pow2_def power_int_def inverse_eq_divide power_one_over)

lemma pow2_pos [simp]: "0 < pow2 e"
  by (simp add: pow2_powi)

lemma pow2_nonneg [simp]: "0 \<le> pow2 e"
  using pow2_pos [of e] by (rule less_imp_le)

lemma pow2_diff: "pow2 (a - b) = pow2 a / pow2 b"
  by (simp add: pow2_powi power_int_diff)

lemma pow2_mono: "a \<le> b \<Longrightarrow> pow2 a \<le> pow2 b"
  by (simp add: pow2_powi power_int_increasing)

lemma pow2_less_exp: "pow2 a \<le> x \<Longrightarrow> x < pow2 b \<Longrightarrow> a < b"
proof (rule ccontr)
  assume "pow2 a \<le> x" "x < pow2 b" "\<not> a < b"
  then have "pow2 b \<le> pow2 a" by (intro pow2_mono) simp
  with \<open>pow2 a \<le> x\<close> \<open>x < pow2 b\<close> show False by simp
qed

lemma quotient_of_pos:
  assumes "0 < x"
  shows "0 < fst (quotient_of x) \<and> 0 < snd (quotient_of x)
         \<and> x = of_int (fst (quotient_of x)) / of_int (snd (quotient_of x))"
proof -
  obtain a b where q: "quotient_of x = (a, b)" by (cases "quotient_of x")
  then have b: "0 < b" by (rule quotient_of_denom_pos)
  have x: "x = of_int a / of_int b" using q by (rule quotient_of_div)
  have "0 < a"
  proof (rule ccontr)
    assume "\<not> 0 < a"
    then have "(of_int a :: rat) \<le> 0" by simp
    then have "x \<le> 0" using b x by (simp add: divide_nonpos_pos)
    with assms show False by simp
  qed
  then show ?thesis using q b x by simp
qed

lemma bitlen_pow2_bounds:
  assumes "0 < a"
  shows "pow2 (bitlen a - 1) \<le> of_int a \<and> of_int a < pow2 (bitlen a)"
proof -
  have l: "1 \<le> bitlen a" using assms by (simp add: bitlen_alt_def)
  have "2 ^ nat (bitlen a - 1) \<le> a \<and> a < 2 ^ nat (bitlen a)" using bitlen_bounds [OF assms] .
  then have "(of_int (2 ^ nat (bitlen a - 1)) :: rat) \<le> of_int a
             \<and> (of_int a :: rat) < of_int (2 ^ nat (bitlen a))"
    by (simp only: of_int_le_iff of_int_less_iff)
  then show ?thesis using l by (simp add: pow2_def)
qed

lemma expo_lower:
  assumes "0 < x"
  shows "pow2 (expo x) \<le> x"
proof -
  let ?a = "fst (quotient_of x)" and ?b = "snd (quotient_of x)"
  let ?d = "bitlen ?a - bitlen ?b"
  have q: "0 < ?a" "0 < ?b" "x = of_int ?a / of_int ?b" using quotient_of_pos [OF assms] by auto
  show ?thesis
  proof (cases "pow2 ?d \<le> x")
    case True
    then show ?thesis by (simp add: expo_def Let_def)
  next
    case False
    have a: "pow2 (bitlen ?a - 1) \<le> of_int ?a" using bitlen_pow2_bounds [OF q(1)] by simp
    have b: "of_int ?b < pow2 (bitlen ?b)" using bitlen_pow2_bounds [OF q(2)] by simp
    have "pow2 (?d - 1) = pow2 (bitlen ?a - 1) / pow2 (bitlen ?b)"
      using pow2_diff [of "bitlen ?a - 1" "bitlen ?b"] by (simp add: algebra_simps)
    also have "\<dots> \<le> of_int ?a / pow2 (bitlen ?b)"
      using a by (intro divide_right_mono) simp_all
    also have "\<dots> \<le> of_int ?a / of_int ?b"
      using b q(1) q(2) by (intro divide_left_mono) (simp_all add: less_imp_le)
    finally have "pow2 (?d - 1) \<le> x" using q(3) by simp
    then show ?thesis using False by (simp add: expo_def Let_def)
  qed
qed

lemma ties_even_near: "\<bar>of_int (ties_even m) - m\<bar> \<le> 1 / 2"
proof -
  have "of_int \<lfloor>m\<rfloor> \<le> m" "m < of_int \<lfloor>m\<rfloor> + 1" by linarith+
  then show ?thesis by (auto simp: ties_even_def Let_def abs_le_iff)
qed

lemma ties_even_ge: "of_int n \<le> m \<Longrightarrow> n \<le> ties_even m"
proof -
  assume "of_int n \<le> m"
  then have "n \<le> \<lfloor>m\<rfloor>" by (simp add: le_floor_iff)
  then show ?thesis by (auto simp: ties_even_def Let_def)
qed


lemma binary64_mag_error:
  assumes lo: "pow2 (- 1022) \<le> x" and hi: "x < pow2 1023"
  shows "\<exists>y. binary64_mag x = Num y \<and> \<bar>y - x\<bar> \<le> x / 2 ^ 53"
proof -
  have x: "0 < x" using lo pow2_pos [of "- 1022"] by linarith
  define e where "e = max (expo x) (- 1022)"
  define u where "u = pow2 (e - 52)"
  define k where "k = ties_even (x / u)"
  have le: "pow2 e \<le> x" using expo_lower [OF x] lo by (simp add: e_def max_def)
  then have e: "e < 1023" using hi by (rule pow2_less_exp)
  have u: "0 < u" by (simp add: u_def)
  have "\<bar>of_int k - x / u\<bar> \<le> 1 / 2" unfolding k_def by (rule ties_even_near)
  then have "\<bar>of_int k - x / u\<bar> * u \<le> 1 / 2 * u" using u by (intro mult_right_mono) simp_all
  moreover have "\<bar>of_int k - x / u\<bar> * u = \<bar>of_int k * u - x\<bar>"
  proof -
    have "(of_int k - x / u) * u = of_int k * u - x" using u by (simp add: field_simps)
    moreover have "\<bar>of_int k - x / u\<bar> * u = \<bar>(of_int k - x / u) * u\<bar>"
      using u by (simp add: abs_mult)
    ultimately show ?thesis by simp
  qed
  moreover have "1 / 2 * u = pow2 e / 2 ^ 53"
    using pow2_diff [of e 52] by (simp add: u_def pow2_def)
  moreover have "pow2 e / 2 ^ 53 \<le> x / 2 ^ 53" using le by (intro divide_right_mono) simp_all
  ultimately have err: "\<bar>of_int k * u - x\<bar> \<le> x / 2 ^ 53" by linarith
  have "binary64_mag x = Num (of_int k * u)"
    using e unfolding binary64_mag_def Let_def e_def [symmetric] u_def [symmetric] k_def [symmetric]
    by simp
  with err show ?thesis by blast
qed

lemma binary64_mag_not_NaN: "binary64_mag x \<noteq> NaN"
  by (simp add: binary64_mag_def Let_def)

lemma binary64_mag_ge_one:
  assumes "1 \<le> x"
  shows "js_le (Num 1) (binary64_mag x)"
proof -
  have x: "0 < x" using assms by simp
  define e where "e = max (expo x) (- 1022)"
  define u where "u = pow2 (e - 52)"
  define k where "k = ties_even (x / u)"
  have u: "0 < u" by (simp add: u_def)
  have lo: "pow2 (- 1022) \<le> x"
  proof -
    have "pow2 (- 1022) \<le> pow2 0" by (rule pow2_mono) simp
    then show ?thesis using assms by (simp add: pow2_def)
  qed
  have le: "pow2 e \<le> x" using expo_lower [OF x] lo by (simp add: e_def max_def)
  have one: "1 \<le> of_int k * u"
  proof (cases "e \<le> 52")
    case True
    then have iu: "1 / u = of_int (2 ^ nat (52 - e))" by (simp add: u_def pow2_def)
    have "1 / u \<le> x / u" using assms u by (intro divide_right_mono) simp_all
    then have "2 ^ nat (52 - e) \<le> k" unfolding k_def iu by (rule ties_even_ge)
    then have "(of_int (2 ^ nat (52 - e)) :: rat) \<le> of_int k" by (simp only: of_int_le_iff)
    then have "1 / u * u \<le> of_int k * u" unfolding iu using u by (intro mult_right_mono) simp_all
    then show ?thesis using u by simp
  next
    case False
    then have u1: "1 \<le> u"
      using pow2_mono [of 0 "e - 52"] by (simp add: u_def pow2_def)
    have "pow2 e / u = pow2 52" using pow2_diff [of e "e - 52"] by (simp add: u_def)
    then have "of_int (2 ^ 52) = pow2 e / u" by (simp add: pow2_def)
    also have "\<dots> \<le> x / u" using le u by (intro divide_right_mono) simp_all
    finally have "2 ^ 52 \<le> k" unfolding k_def by (rule ties_even_ge)
    then have "(1::rat) \<le> of_int k" by simp
    then have "1 * 1 \<le> of_int k * u" using u1 by (intro mult_mono) simp_all
    then show ?thesis by simp
  qed
  show ?thesis
    unfolding binary64_mag_def Let_def e_def [symmetric] u_def [symmetric] k_def [symmetric]
    using one by simp
qed

lemma binary64_of_nat: "n < 2 ^ 53 \<Longrightarrow> binary64 (of_nat n) = Num (of_nat n)"
  using binary64_of_int [of "int n"] by simp

section \<open>Evaluating the examples\<close>

lemmas decimal_eval = decimal_def digits.simps digit_char_def

lemmas cache_eval = syncCache_def cache_keys_def cache_has_def cache_set_def cache_delete_def
  cache_get_def removeSticker_def



lemmas ex_defs = ex_canvas_def ex_rect_def ex_idle_def ex_drag_def ex_pair_def ex_click_def
  ex_far_def ex_to_def newSticker_def getMousePos_def of_uint_def js_sub_def js_ge_def inBox_def

section \<open>Pointer interaction: proofs\<close>

lemma falsy_Some [simp]: "falsy (Some d) = (d = [])" by (simp add: falsy_def)
lemma falsy_None [simp]: "falsy None" by (simp add: falsy_def)

lemma handleMouseMove_active:
  "\<not> falsy (draggingId st) \<Longrightarrow>
   handleMouseMove cv rect ss st e =
     Some (map (\<lambda>s. if Some (s_id s) = draggingId st
                      then s\<lparr>s_x := js_sub (p_x (getMousePos cv rect e)) (p_x (dragOffset st)),
                            s_y := js_sub (p_y (getMousePos cv rect e)) (p_y (dragOffset st))\<rparr>
                      else s) ss)"
  by (simp add: handleMouseMove_def Let_def)

lemma moves_length: "length (moves cv st es ss) = length ss"
  by (induction es arbitrary: ss) (auto simp: handleMouseMove_def Let_def split: option.splits)

lemma moves_ids: "map s_id (moves cv st es ss) = map s_id ss"
proof (induction es arbitrary: ss)
  case Nil
  then show ?case by simp
next
  case (Cons a es)
  obtain rect e where a: "a = (rect, e)" by (cases a)
  have "map s_id (case handleMouseMove cv rect ss st e of None \<Rightarrow> ss | Some ss' \<Rightarrow> ss') = map s_id ss"
    by (auto simp: handleMouseMove_def Let_def split: option.splits)
  with Cons show ?case by (simp add: a)
qed

lemma moves_snoc:
  "moves cv st (es @ [(rect, e)]) ss =
     (case handleMouseMove cv rect (moves cv st es ss) st e of
        None \<Rightarrow> moves cv st es ss | Some ss' \<Rightarrow> ss')"
  by (induction es arbitrary: ss) (auto split: option.splits)

text \<open>
  Claim C3. While a drag is active (\<^verbatim>\<open>draggingId\<close> holds a non-empty identifier) with
  recorded offset \<open>o\<close>, after any run \<open>es\<close> of earlier pointer-move events the next
  pointer-move to the surface position \<open>p\<close> leaves every sticker that carries the dragged
  identifier at exactly \<open>(p.x - o.x, p.y - o.y)\<close>, the subtraction being the one of the
  program's numbers: the earlier events leave no trace, so nothing drifts. The position
  \<open>p\<close> is the client position minus the origin of the displayed rectangle, multiplied
  by the ratio of the surface size to the displayed size.
\<close>

theorem drag_tracks_pointer:
  assumes act: "draggingId st = Some d" and d: "d \<noteq> []"
      and i: "i < length ss" and id: "s_id (ss ! i) = d"
  shows "s_x (moves cv st (es @ [(rect, e)]) ss ! i)
           = js_sub (p_x (getMousePos cv rect e)) (p_x (dragOffset st))
       \<and> s_y (moves cv st (es @ [(rect, e)]) ss ! i)
           = js_sub (p_y (getMousePos cv rect e)) (p_y (dragOffset st))
       \<and> getMousePos (Some c) rect e =
           \<lparr>p_x = js_mul (js_sub (clientX e) (r_left rect))
                    (js_div (of_uint (c_width c)) (r_width rect)),
            p_y = js_mul (js_sub (clientY e) (r_top rect))
                    (js_div (of_uint (c_height c)) (r_height rect))\<rparr>"
proof -
  let ?ms = "moves cv st es ss"
  have len: "i < length ?ms" using i by (simp add: moves_length)
  have "map s_id ?ms ! i = map s_id ss ! i" by (simp add: moves_ids)
  then have idm: "s_id (?ms ! i) = d" using i len id by simp
  have nf: "\<not> falsy (draggingId st)" using act d by simp
  show ?thesis
    using len idm act
    by (simp add: moves_snoc handleMouseMove_active [OF nf] getMousePos_def Let_def)
qed

theorem drag_tracks_pointer_witness:
  "draggingId ex_drag = Some ''1'' \<and> ''1'' \<noteq> [] \<and> 0 < length [newSticker 1 ''a'']
   \<and> s_id ([newSticker 1 ''a''] ! 0) = ''1''
   \<and> moves (Some ex_canvas) ex_drag ([(ex_rect, ex_click)] @ [(ex_rect, ex_to)]) [newSticker 1 ''a'']
       = [(newSticker 1 ''a'')\<lparr>s_x := Num 300, s_y := Num 200\<rparr>]"
proof -
  have h1: "draggingId ex_drag = Some ''1''" by (simp add: ex_drag_def)
  have h2: "''1'' \<noteq> []" by simp
  have h3: "0 < length [newSticker 1 ''a'']" by simp
  have h4: "s_id ([newSticker 1 ''a''] ! 0) = ''1''"
    by (simp add: newSticker_def decimal_def digits.simps digit_char_def)
  have p: "getMousePos (Some ex_canvas) ex_rect ex_to = \<lparr>p_x = Num 300, p_y = Num 200\<rparr>"
    by (simp add: ex_defs)
  have o: "dragOffset ex_drag = \<lparr>p_x = Num 0, p_y = Num 0\<rparr>" by (simp add: ex_drag_def)
  let ?r = "moves (Some ex_canvas) ex_drag ([(ex_rect, ex_click)] @ [(ex_rect, ex_to)]) [newSticker 1 ''a'']"
  have xy: "s_x (?r ! 0) = Num 300 \<and> s_y (?r ! 0) = Num 200"
    using drag_tracks_pointer [OF h1 h2 h3 h4, where cv = "Some ex_canvas" and rect = ex_rect
        and e = ex_to and es = "[(ex_rect, ex_click)]"]
    by (simp add: p o js_sub_def)
  have "?r = [(newSticker 1 ''a'')\<lparr>s_x := s_x (?r ! 0), s_y := s_y (?r ! 0)\<rparr>]"
    by (simp add: handleMouseMove_def ex_drag_def Let_def newSticker_def decimal_def digits.simps digit_char_def)
  then show ?thesis using h1 h4 xy by simp
qed

text \<open>
  Claim C10. A pointer-move received while no drag is active emits nothing and leaves the
  owner's list as it is. A pointer-move during a drag emits a list of the same length in
  the same order, in which every sticker agrees with the one it replaces on all fields but
  \<open>x\<close> and \<open>y\<close>, and every sticker whose identifier is not the dragged one is unchanged.
\<close>

theorem handleMouseMove_frame:
  "(falsy (draggingId st) \<longrightarrow>
      handleMouseMove cv rect ss st e = None \<and> step (Move cv rect st e) ss = ss)
   \<and> (\<forall>ss'. handleMouseMove cv rect ss st e = Some ss' \<longrightarrow>
         length ss' = length ss
         \<and> (\<forall>i<length ss.
               ss' ! i = (ss ! i)\<lparr>s_x := s_x (ss' ! i), s_y := s_y (ss' ! i)\<rparr>
               \<and> (Some (s_id (ss ! i)) \<noteq> draggingId st \<longrightarrow> ss' ! i = ss ! i)))"
  by (auto simp: handleMouseMove_def Let_def)

theorem handleMouseMove_frame_witness:
  "falsy (draggingId ex_idle)
   \<and> handleMouseMove (Some ex_canvas) ex_rect ex_pair ex_idle ex_to = None
   \<and> step (Move (Some ex_canvas) ex_rect ex_idle ex_to) ex_pair = ex_pair
   \<and> handleMouseMove (Some ex_canvas) ex_rect ex_pair ex_drag ex_to
       = Some [(newSticker 1 ''a'')\<lparr>s_x := Num 300, s_y := Num 200\<rparr>, ex_pair ! 1]
   \<and> length [(newSticker 1 ''a'')\<lparr>s_x := Num 300, s_y := Num 200\<rparr>, ex_pair ! 1] = length ex_pair
   \<and> [(newSticker 1 ''a'')\<lparr>s_x := Num 300, s_y := Num 200\<rparr>, ex_pair ! 1] ! 1 = ex_pair ! 1"
proof -
  have f: "falsy (draggingId ex_idle)" by (simp add: ex_idle_def)
  have m: "handleMouseMove (Some ex_canvas) ex_rect ex_pair ex_drag ex_to
       = Some [(newSticker 1 ''a'')\<lparr>s_x := Num 300, s_y := Num 200\<rparr>, ex_pair ! 1]"
    by (simp add: handleMouseMove_def ex_defs Let_def decimal_def digits.simps digit_char_def)
  have len: "length ex_pair = 2" by (simp add: ex_pair_def)
  have ne: "Some (s_id (ex_pair ! 1)) \<noteq> draggingId ex_drag"
    by (simp add: ex_defs decimal_def digits.simps digit_char_def)
  note T = handleMouseMove_frame [where cv = "Some ex_canvas" and rect = ex_rect and ss = ex_pair
      and e = ex_to]
  have a: "handleMouseMove (Some ex_canvas) ex_rect ex_pair ex_idle ex_to = None
           \<and> step (Move (Some ex_canvas) ex_rect ex_idle ex_to) ex_pair = ex_pair"
    using T [where st = ex_idle, THEN conjunct1] f by (rule mp)
  have b: "length [(newSticker 1 ''a'')\<lparr>s_x := Num 300, s_y := Num 200\<rparr>, ex_pair ! 1] = length ex_pair
     \<and> [(newSticker 1 ''a'')\<lparr>s_x := Num 300, s_y := Num 200\<rparr>, ex_pair ! 1] ! 1 = ex_pair ! 1"
    using T [where st = ex_drag, THEN conjunct2, rule_format, OF m] ne len by simp
  show ?thesis using f a m b by (intro conjI) simp_all
qed

lemma hitLoop_none:
  "(\<forall>i<n. \<not> inBox pos (ss ! i)) \<Longrightarrow> hitLoop pos ss n st = st"
  by (induction n) (simp_all add: Let_def)

lemma hitLoop_hit:
  "i < n \<Longrightarrow> inBox pos (ss ! i) \<Longrightarrow> (\<forall>j. i < j \<and> j < n \<longrightarrow> \<not> inBox pos (ss ! j)) \<Longrightarrow>
   hitLoop pos ss n st =
     \<lparr>draggingId = Some (s_id (ss ! i)),
      dragOffset = \<lparr>p_x = js_sub (p_x pos) (s_x (ss ! i)),
                    p_y = js_sub (p_y pos) (s_y (ss ! i))\<rparr>\<rparr>"
proof (induction n)
  case 0
  then show ?case by simp
next
  case (Suc n)
  show ?case
  proof (cases "i = n")
    case True
    with Suc.prems show ?thesis by (simp add: Let_def)
  next
    case False
    with Suc.prems have "i < n" by simp
    moreover have "\<not> inBox pos (ss ! n)" using Suc.prems False by auto
    ultimately show ?thesis using Suc by (simp add: Let_def)
  qed
qed

lemma box_abs:
  "(x - w / 2 \<le> px \<and> px \<le> x + w / 2 \<and> y - h / 2 \<le> py \<and> py \<le> y + h / 2)
     \<longleftrightarrow> \<bar>px - x\<bar> \<le> w / 2 \<and> \<bar>py - y\<bar> \<le> h / 2" for x y w h px py :: rat
  unfolding abs_le_iff by (auto simp: algebra_simps)

lemma inBox_exact:
  assumes "js_sub (Num x) (js_div (Num w) (Num 2)) = Num (x - w / 2)"
      and "js_add (Num x) (js_div (Num w) (Num 2)) = Num (x + w / 2)"
      and "js_sub (Num y) (js_div (Num h) (Num 2)) = Num (y - h / 2)"
      and "js_add (Num y) (js_div (Num h) (Num 2)) = Num (y + h / 2)"
  shows "inBox \<lparr>p_x = Num px, p_y = Num py\<rparr>
           \<lparr>s_id = i, s_url = u, s_x = Num x, s_y = Num y, s_width = Num w,
            s_height = Num h, s_rotation = r\<rparr>
         \<longleftrightarrow> \<bar>px - x\<bar> \<le> w / 2 \<and> \<bar>py - y\<bar> \<le> h / 2"
proof -
  have "inBox \<lparr>p_x = Num px, p_y = Num py\<rparr>
           \<lparr>s_id = i, s_url = u, s_x = Num x, s_y = Num y, s_width = Num w,
            s_height = Num h, s_rotation = r\<rparr>
        \<longleftrightarrow> (x - w / 2 \<le> px \<and> px \<le> x + w / 2 \<and> y - h / 2 \<le> py \<and> py \<le> y + h / 2)"
    unfolding inBox_def js_ge_def by (simp add: assms del: js_div.simps)
  then show ?thesis by (simp only: box_abs)
qed

text \<open>
  Claim C2, as amended. Pointer-down tests the stickers from the last of the list (the
  topmost drawn) to the first, by containment in the axis-aligned box around the centre,
  the rotation playing no part. If no box contains the position the drag state is
  unchanged, so no drag starts. Otherwise the sticker of greatest index whose box contains
  the position becomes the drag target, and the recorded offset is the position minus its
  centre. The box test is the four comparisons of the position against the edges
  \<open>x \<mp> width / 2\<close> and \<open>y \<mp> height / 2\<close>, each edge a double that the program
  computes; whenever these four edges are computed without rounding, the test is
  \<open>\<bar>p.x - x\<bar> \<le> width / 2\<close> and \<open>\<bar>p.y - y\<bar> \<le> height / 2\<close>.
\<close>

theorem handleMouseDown_hit_test:
  "((\<forall>i<length ss. \<not> inBox (getMousePos cv rect e) (ss ! i)) \<longrightarrow>
      handleMouseDown cv rect ss st e = st)
   \<and> (\<forall>i<length ss.
         inBox (getMousePos cv rect e) (ss ! i)
         \<and> (\<forall>j. i < j \<and> j < length ss \<longrightarrow> \<not> inBox (getMousePos cv rect e) (ss ! j))
         \<longrightarrow> handleMouseDown cv rect ss st e =
               \<lparr>draggingId = Some (s_id (ss ! i)),
                dragOffset =
                  \<lparr>p_x = js_sub (p_x (getMousePos cv rect e)) (s_x (ss ! i)),
                   p_y = js_sub (p_y (getMousePos cv rect e)) (s_y (ss ! i))\<rparr>\<rparr>)
   \<and> (js_sub (Num x) (js_div (Num w) (Num 2)) = Num (x - w / 2)
        \<and> js_add (Num x) (js_div (Num w) (Num 2)) = Num (x + w / 2)
        \<and> js_sub (Num y) (js_div (Num h) (Num 2)) = Num (y - h / 2)
        \<and> js_add (Num y) (js_div (Num h) (Num 2)) = Num (y + h / 2)
        \<longrightarrow> (inBox \<lparr>p_x = Num px, p_y = Num py\<rparr>
               \<lparr>s_id = k, s_url = u, s_x = Num x, s_y = Num y, s_width = Num w,
                s_height = Num h, s_rotation = r\<rparr>
             \<longleftrightarrow> \<bar>px - x\<bar> \<le> w / 2 \<and> \<bar>py - y\<bar> \<le> h / 2))"
proof (intro conjI impI allI)
  assume "\<forall>i<length ss. \<not> inBox (getMousePos cv rect e) (ss ! i)"
  then show "handleMouseDown cv rect ss st e = st"
    unfolding handleMouseDown_def by (rule hitLoop_none)
next
  fix i
  assume "i < length ss"
    and "inBox (getMousePos cv rect e) (ss ! i)
         \<and> (\<forall>j. i < j \<and> j < length ss \<longrightarrow> \<not> inBox (getMousePos cv rect e) (ss ! j))"
  then show "handleMouseDown cv rect ss st e =
               \<lparr>draggingId = Some (s_id (ss ! i)),
                dragOffset =
                  \<lparr>p_x = js_sub (p_x (getMousePos cv rect e)) (s_x (ss ! i)),
                   p_y = js_sub (p_y (getMousePos cv rect e)) (s_y (ss ! i))\<rparr>\<rparr>"
    unfolding handleMouseDown_def by (intro hitLoop_hit) auto
next
  assume "js_sub (Num x) (js_div (Num w) (Num 2)) = Num (x - w / 2)
        \<and> js_add (Num x) (js_div (Num w) (Num 2)) = Num (x + w / 2)
        \<and> js_sub (Num y) (js_div (Num h) (Num 2)) = Num (y - h / 2)
        \<and> js_add (Num y) (js_div (Num h) (Num 2)) = Num (y + h / 2)"
  then show "inBox \<lparr>p_x = Num px, p_y = Num py\<rparr>
               \<lparr>s_id = k, s_url = u, s_x = Num x, s_y = Num y, s_width = Num w,
                s_height = Num h, s_rotation = r\<rparr>
             \<longleftrightarrow> \<bar>px - x\<bar> \<le> w / 2 \<and> \<bar>py - y\<bar> \<le> h / 2"
    by (intro inBox_exact) simp_all
qed

theorem handleMouseDown_hit_test_witness:
  "inBox (getMousePos (Some ex_canvas) ex_rect ex_click) (ex_pair ! 1)
   \<and> handleMouseDown (Some ex_canvas) ex_rect ex_pair ex_idle ex_click =
       \<lparr>draggingId = Some ''2'', dragOffset = \<lparr>p_x = Num (- 10), p_y = Num 0\<rparr>\<rparr>
   \<and> \<not> inBox (getMousePos (Some ex_canvas) ex_rect ex_far) (ex_pair ! 0)
   \<and> \<not> inBox (getMousePos (Some ex_canvas) ex_rect ex_far) (ex_pair ! 1)
   \<and> handleMouseDown (Some ex_canvas) ex_rect ex_pair ex_idle ex_far = ex_idle
   \<and> (inBox \<lparr>p_x = Num 200, p_y = Num 100\<rparr> (newSticker 1 ''a'')
        \<longleftrightarrow> \<bar>200 - 150\<bar> \<le> (100 / 2 :: rat) \<and> \<bar>100 - 150\<bar> \<le> (100 / 2 :: rat))"
proof -
  note T = handleMouseDown_hit_test
  have len: "length ex_pair = 2" by (simp add: ex_pair_def)
  have h1: "inBox (getMousePos (Some ex_canvas) ex_rect ex_click) (ex_pair ! 1)"
    by (simp add: ex_defs)
  have h2: "\<forall>j. 1 < j \<and> j < length ex_pair \<longrightarrow>
              \<not> inBox (getMousePos (Some ex_canvas) ex_rect ex_click) (ex_pair ! j)"
    using len by auto
  have v1: "\<lparr>draggingId = Some (s_id (ex_pair ! 1)),
             dragOffset =
               \<lparr>p_x = js_sub (p_x (getMousePos (Some ex_canvas) ex_rect ex_click)) (s_x (ex_pair ! 1)),
                p_y = js_sub (p_y (getMousePos (Some ex_canvas) ex_rect ex_click)) (s_y (ex_pair ! 1))\<rparr>\<rparr>
            = \<lparr>draggingId = Some ''2'', dragOffset = \<lparr>p_x = Num (- 10), p_y = Num 0\<rparr>\<rparr>"
    by (simp add: ex_defs decimal_def digits.simps digit_char_def)
  have a: "handleMouseDown (Some ex_canvas) ex_rect ex_pair ex_idle ex_click =
       \<lparr>draggingId = Some ''2'', dragOffset = \<lparr>p_x = Num (- 10), p_y = Num 0\<rparr>\<rparr>"
    using T [where ss = ex_pair and cv = "Some ex_canvas" and rect = ex_rect and e = ex_click
               and st = ex_idle, THEN conjunct2, THEN conjunct1, rule_format, of 1] h1 h2
    by (simp only: v1 len)
  have n0: "\<not> inBox (getMousePos (Some ex_canvas) ex_rect ex_far) (ex_pair ! 0)"
    by (simp add: ex_defs)
  have n1: "\<not> inBox (getMousePos (Some ex_canvas) ex_rect ex_far) (ex_pair ! 1)"
    by (simp add: ex_defs)
  have none: "\<forall>i<length ex_pair. \<not> inBox (getMousePos (Some ex_canvas) ex_rect ex_far) (ex_pair ! i)"
    using n0 n1 by (auto simp: len less_Suc_eq numeral_2_eq_2)
  have b: "handleMouseDown (Some ex_canvas) ex_rect ex_pair ex_idle ex_far = ex_idle"
    using T [where ss = ex_pair and cv = "Some ex_canvas" and rect = ex_rect and e = ex_far
               and st = ex_idle, THEN conjunct1] none by (rule mp)
  have e1: "js_sub (Num 150) (js_div (Num 100) (Num 2)) = Num (150 - 100 / 2)"
    by (simp add: js_sub_def)
  have e2: "js_add (Num 150) (js_div (Num 100) (Num 2)) = Num (150 + 100 / 2)"
    by simp
  have c: "inBox \<lparr>p_x = Num 200, p_y = Num 100\<rparr> (newSticker 1 ''a'')
        \<longleftrightarrow> \<bar>200 - 150\<bar> \<le> (100 / 2 :: rat) \<and> \<bar>100 - 150\<bar> \<le> (100 / 2 :: rat)"
    unfolding newSticker_def
    using T [where x = 150 and w = 100 and y = 150 and h = 100 and px = 200 and py = 100,
             THEN conjunct2, THEN conjunct2] e1 e2
    by (rule_tac mp) auto
  show ?thesis using h1 a n0 n1 b c by (intro conjI)
qed

lemma edge_kernel:
  "js_sub (Num (283273949429207 / 549755813888)) (Num 0) = Num (283273949429207 / 549755813888)"
  "js_mul (Num (283273949429207 / 549755813888)) (Num 1) = Num (283273949429207 / 549755813888)"
  "js_sub (Num (8185157079513823 / 17592186044416)) (Num 50)
     = Num (7305547777293023 / 17592186044416)"
  "js_add (Num (8185157079513823 / 17592186044416)) (Num 50)
     = Num (283273949429207 / 549755813888)"
  "js_sub (Num (283273949429207 / 549755813888)) (Num (8185157079513823 / 17592186044416))
     = Num (879609302220801 / 17592186044416)"
  by code_simp+

lemma edge_pos:
  "getMousePos (Some ex_canvas) ex_rect ex_edge_click
     = \<lparr>p_x = Num (283273949429207 / 549755813888), p_y = Num 150\<rparr>"
proof -
  have s: "js_div (Num 800) (Num 800) = Num 1" "js_div (Num 450) (Num 450) = Num 1"
    "js_sub (Num 150) (Num 0) = Num 150" "js_mul (Num 150) (Num 1) = Num 150"
    by (simp_all add: js_sub_def)
  show ?thesis
    unfolding getMousePos_def ex_canvas_def ex_rect_def ex_edge_click_def of_uint_def
    by (simp add: s edge_kernel del: js_div.simps js_mul.simps)
qed

text \<open>
  The claim as stated fails: the box is not the set of positions with
  \<open>\<bar>p.x - x\<bar> \<le> width / 2\<close>. For a sticker 100 wide centred at
  \<open>x = 8185157079513823 / 2 ^ 44\<close> (465.2723123123123) the right edge \<open>x + 50\<close> lies
  halfway between two doubles and rounds up to \<open>283273949429207 / 2 ^ 39\<close>
  (515.2723123123124). A pointer-down at that position passes the four comparisons and
  starts a drag, although its distance from the centre is \<open>50 + 2 ^ -44\<close>, more than half
  the width; the offset that the program records is that distance, and the program's own
  comparison finds it greater than \<^verbatim>\<open>width / 2\<close>.
\<close>

theorem handleMouseDown_counterexample:
  "getMousePos (Some ex_canvas) ex_rect ex_edge_click
     = \<lparr>p_x = Num (283273949429207 / 549755813888), p_y = Num 150\<rparr>
   \<and> s_x ex_edge = Num (8185157079513823 / 17592186044416) \<and> s_y ex_edge = Num 150
   \<and> s_width ex_edge = Num 100 \<and> s_height ex_edge = Num 100
   \<and> \<not> \<bar>283273949429207 / 549755813888 - 8185157079513823 / 17592186044416\<bar>
         \<le> (100 / 2 :: rat)
   \<and> inBox (getMousePos (Some ex_canvas) ex_rect ex_edge_click) ex_edge
   \<and> handleMouseDown (Some ex_canvas) ex_rect [ex_edge] ex_idle ex_edge_click
       = \<lparr>draggingId = Some ''1'',
          dragOffset = \<lparr>p_x = Num (879609302220801 / 17592186044416), p_y = Num 0\<rparr>\<rparr>
   \<and> js_gt (Num (879609302220801 / 17592186044416)) (js_div (Num 100) (Num 2))"
proof -
  have e: "js_div (Num 100) (Num 2) = Num 50" "js_sub (Num 150) (Num 50) = Num 100"
    "js_add (Num 150) (Num 50) = Num 200" "js_sub (Num 150) (Num 150) = Num 0"
    by (simp_all add: js_sub_def)
  have f: "s_x ex_edge = Num (8185157079513823 / 17592186044416)" "s_y ex_edge = Num 150"
    "s_width ex_edge = Num 100" "s_height ex_edge = Num 100" "s_id ex_edge = ''1''"
    by (simp_all add: ex_edge_def newSticker_def decimal_eval)
  have b: "inBox (getMousePos (Some ex_canvas) ex_rect ex_edge_click) ex_edge"
    unfolding edge_pos inBox_def js_ge_def
    by (simp add: f e edge_kernel del: js_div.simps js_add.simps)
  have d: "handleMouseDown (Some ex_canvas) ex_rect [ex_edge] ex_idle ex_edge_click
       = \<lparr>draggingId = Some ''1'',
          dragOffset = \<lparr>p_x = Num (879609302220801 / 17592186044416), p_y = Num 0\<rparr>\<rparr>"
    using b unfolding handleMouseDown_def
    by (simp add: Let_def edge_pos f e edge_kernel del: js_div.simps js_add.simps)
  have g: "js_gt (Num (879609302220801 / 17592186044416)) (js_div (Num 100) (Num 2))"
    by (simp add: js_gt_def)
  have a: "\<not> \<bar>283273949429207 / 549755813888 - 8185157079513823 / 17592186044416\<bar>
             \<le> (100 / 2 :: rat)"
    by simp
  show ?thesis using edge_pos f b d g a by (intro conjI)
qed

section \<open>The owner of the sticker list: proofs\<close>

lemma handleMouseMove_ids:
  "map s_id (case handleMouseMove cv rect ss st e of None \<Rightarrow> ss | Some ss' \<Rightarrow> ss') = map s_id ss"
  by (auto simp: handleMouseMove_def Let_def split: option.splits)

lemma step_ids:
  "map s_id (step a ss) =
     (case a of
        Generate None now \<Rightarrow> map s_id ss
      | Generate (Some u) now \<Rightarrow> map s_id ss @ [decimal now]
      | Remove i \<Rightarrow> filter (\<lambda>k. k \<noteq> i) (map s_id ss)
      | Move cv rect st e \<Rightarrow> map s_id ss
      | ClearAll \<Rightarrow> [])"
proof (cases a)
  case (Generate g now)
  then show ?thesis
    by (cases g) (simp_all add: handleGenerateSticker_def newSticker_def)
next
  case (Remove i)
  then show ?thesis by (simp add: removeSticker_def filter_map comp_def)
next
  case (Move cv rect st e)
  then show ?thesis by (simp add: handleMouseMove_ids)
next
  case ClearAll
  then show ?thesis by simp
qed

lemma step_distinct:
  assumes "distinct (map s_id ss)"
      and "case a of Generate (Some u) now \<Rightarrow> decimal now \<notin> set (map s_id ss) | _ \<Rightarrow> True"
  shows "distinct (map s_id (step a ss))"
proof (cases a)
  case (Generate g now)
  then show ?thesis using assms by (cases g) (simp_all add: step_ids del: step.simps)
next
  case (Remove i)
  then show ?thesis using assms by (simp add: step_ids del: step.simps)
next
  case (Move cv rect st e)
  then show ?thesis using assms by (simp add: step_ids del: step.simps)
next
  case ClearAll
  then show ?thesis by simp
qed

lemma run_distinct:
  "distinct (map s_id ss) \<Longrightarrow> fresh_clock as ss \<Longrightarrow> distinct (map s_id (run as ss))"
proof (induction as arbitrary: ss)
  case Nil
  then show ?case by simp
next
  case (Cons a as)
  from Cons.prems have "distinct (map s_id (step a ss))" by (intro step_distinct) simp_all
  moreover from Cons.prems have "fresh_clock as (step a ss)" by simp
  ultimately show ?case using Cons.IH by simp
qed

text \<open>
  Claim C9, as amended. Identifiers are the decimal digits of the clock reading at which a
  sticker is created. In every state reached from the empty list by creations, removals,
  pointer-moves and clearings in which each creation happens at a clock reading whose
  digits are not the identifier of a sticker then in the list, the identifiers are
  pairwise distinct. No operation changes the identifier of a sticker: a creation appends
  one identifier, a removal deletes the occurrences of one, a pointer-move keeps the
  sequence of identifiers, a clearing empties it.
\<close>

theorem sticker_ids_distinct_stable:
  "(fresh_clock as [] \<longrightarrow> distinct (map s_id (run as [])))
   \<and> map s_id (step a ss) =
       (case a of
          Generate None now \<Rightarrow> map s_id ss
        | Generate (Some u) now \<Rightarrow> map s_id ss @ [decimal now]
        | Remove i \<Rightarrow> filter (\<lambda>k. k \<noteq> i) (map s_id ss)
        | Move cv rect st e \<Rightarrow> map s_id ss
        | ClearAll \<Rightarrow> [])"
  using run_distinct [of "[]" as] step_ids [of a ss] by simp

theorem sticker_ids_distinct_stable_witness:
  "fresh_clock ex_session [] \<and> distinct (map s_id (run ex_session []))
   \<and> map s_id (run ex_session []) = [''2'', ''3'']"
proof -
  have f: "fresh_clock ex_session []"
    by (simp add: ex_session_def handleGenerateSticker_def newSticker_def removeSticker_def
        handleMouseMove_def Let_def ex_drag_def decimal_eval)
  have d: "distinct (map s_id (run ex_session []))"
    using sticker_ids_distinct_stable [of ex_session, THEN conjunct1] f by (rule mp)
  have "map s_id (run ex_session []) = [''2'', ''3'']"
    by (simp add: ex_session_def handleGenerateSticker_def newSticker_def removeSticker_def
        handleMouseMove_def Let_def ex_drag_def decimal_eval)
  with f d show ?thesis by simp
qed

text \<open>
  The claim as stated fails: two stickers created at the same clock reading carry the
  same identifier.
\<close>

theorem sticker_ids_counterexample:
  "\<not> distinct (map s_id (run [Generate (Some ''a'') 1730544000000,
                               Generate (Some ''b'') 1730544000000] []))"
  by (simp add: handleGenerateSticker_def newSticker_def)

section \<open>The sticker image cache and the sticker loop: proofs\<close>

lemma cache_has_keys: "cache_has m k \<longleftrightarrow> k \<in> set (cache_keys m)"
  by (simp add: cache_has_def cache_keys_def)

lemma cache_keys_set:
  "cache_keys (cache_set m k v) = (if cache_has m k then cache_keys m else cache_keys m @ [k])"
  by (auto simp: cache_keys_def cache_set_def cache_has_def split: prod.splits)

lemma loadStickers_keys:
  "set (cache_keys (loadStickers newImage ss m)) = set (cache_keys m) \<union> set (map s_id ss)"
proof (induction ss arbitrary: m)
  case Nil
  then show ?case by simp
next
  case (Cons s ss)
  show ?case
    by (cases "cache_has m (s_id s)")
       (auto simp: Cons.IH cache_keys_set cache_has_keys)
qed

lemma loadStickers_distinct:
  "distinct (cache_keys m) \<Longrightarrow> distinct (cache_keys (loadStickers newImage ss m))"
proof (induction ss arbitrary: m)
  case Nil
  then show ?case by simp
next
  case (Cons s ss)
  have "distinct (cache_keys (if \<not> cache_has m (s_id s)
          then cache_set m (s_id s) (newImage (s_url s)) else m))"
    using Cons.prems by (simp add: cache_keys_set cache_has_keys)
  then show ?case using Cons.IH by simp
qed

lemma cache_keys_delete [simp]:
  "cache_keys (cache_delete m k) = filter (\<lambda>k'. k' \<noteq> k) (cache_keys m)"
  by (induction m) (auto simp: cache_keys_def cache_delete_def)

lemma cleanup_keys:
  "cache_keys (cleanup ids ks m) = filter (\<lambda>k. k \<in> ids \<or> k \<notin> set ks) (cache_keys m)"
proof (induction ks arbitrary: m)
  case Nil
  then show ?case by simp
next
  case (Cons k ks)
  show ?case by (auto simp: Cons.IH intro: filter_cong)
qed

lemma syncCache_keys:
  "set (cache_keys (syncCache newImage ss m)) = set (map s_id ss)"
  by (auto simp: syncCache_def Let_def cleanup_keys loadStickers_keys)

lemma syncCache_distinct:
  "distinct (cache_keys m) \<Longrightarrow> distinct (cache_keys (syncCache newImage ss m))"
  by (simp add: syncCache_def Let_def cleanup_keys loadStickers_distinct)

lemma cache_get_absent: "\<not> cache_has m k \<Longrightarrow> cache_get m k = None"
  by (simp add: cache_has_def cache_get_def map_of_eq_None_iff)

lemma drawSticker_skip: "\<not> drawable m s \<Longrightarrow> drawSticker m drag s c = (Finished, c)"
  by (auto simp: drawable_def drawSticker_def split: option.splits)

lemma drawStickers_drawable:
  "drawStickers m drag ss c = drawStickers m drag (filter (drawable m) ss) c"
proof (induction ss arbitrary: c)
  case Nil
  then show ?case by simp
next
  case (Cons s ss)
  show ?case
  proof (cases "drawable m s")
    case True
    then show ?thesis using Cons.IH by (auto split: prod.splits status.splits)
  next
    case False
    then show ?thesis using Cons.IH by (simp add: drawSticker_skip)
  qed
qed

lemma drawStickers_absent:
  assumes "\<not> cache_has m i"
  shows "drawStickers m drag ss c = drawStickers m drag (filter (\<lambda>s. s_id s \<noteq> i) ss) c"
proof -
  have "filter (drawable m) (filter (\<lambda>s. s_id s \<noteq> i) ss) = filter (drawable m) ss"
    using assms by (auto simp: drawable_def cache_get_absent intro!: filter_cong)
  then show ?thesis
    using drawStickers_drawable [of m drag ss c]
          drawStickers_drawable [of m drag "filter (\<lambda>s. s_id s \<noteq> i) ss" c]
    by simp
qed

lemma drawSticker_loaded:
  assumes "cache_get m (s_id s) = Some im" "i_state im = Loaded" "0 < i_width im" "0 < i_height im"
  shows "drawSticker m None s c =
           (Finished,
            c\<lparr>painted := painted c @
               [DrawImage im (js_div (js_neg (s_width s)) (Num 2))
                  (js_div (js_neg (s_height s)) (Num 2)) (s_width s) (s_height s)
                  (transform (ctx c) @
                     [Translate (s_x s) (s_y s),
                      Rotate (js_div (js_mul (s_rotation s) math_PI) (Num 180))])]\<rparr>)"
  using assms
  by (simp add: drawSticker_def complete_def drawImage_def Let_def save_def translate_def
      rotate_ctx_def restore_def)

text \<open>
  Claim C6. The cache holds one entry per key, and the effect that runs on every update of
  the sticker list keeps it so; after the effect the keys of the cache are exactly the
  identifiers of the stickers of the list, hence a subset of them. A removal leaves no
  sticker with the removed identifier in the list, and after the effect has run for a list
  without an identifier, that identifier has no entry. A render against such a cache never
  draws a sticker with that identifier, whatever list it is given (the list of the moment,
  or the stale list captured by the \<^verbatim>\<open>onload\<close> handler of an image whose load was in
  flight) and whatever the state of the image elements: it draws what it would draw for
  the list without these stickers.
\<close>

theorem syncCache_invariant:
  "(distinct (cache_keys m) \<longrightarrow> distinct (cache_keys (syncCache newImage ss m)))
   \<and> set (cache_keys (syncCache newImage ss m)) = set (map s_id ss)
   \<and> i \<notin> set (map s_id (removeSticker i ss))
   \<and> (i \<notin> set (map s_id ss) \<longrightarrow>
        \<not> cache_has (syncCache newImage ss m) i
        \<and> drawStickers (syncCache newImage ss m) drag stale c
            = drawStickers (syncCache newImage ss m) drag (filter (\<lambda>s. s_id s \<noteq> i) stale) c)"
proof -
  have a: "\<not> cache_has (syncCache newImage ss m) i" if "i \<notin> set (map s_id ss)"
    using that syncCache_keys [of newImage ss m] by (simp add: cache_has_keys)
  have b: "i \<notin> set (map s_id (removeSticker i ss))" by (auto simp: removeSticker_def)
  show ?thesis
    using a b syncCache_distinct syncCache_keys drawStickers_absent by blast
qed

theorem syncCache_invariant_witness:
  "distinct (cache_keys (syncCache ex_newImage ex_pair []))
   \<and> distinct (cache_keys (syncCache ex_newImage (removeSticker ''1'' ex_pair)
                  (syncCache ex_newImage ex_pair [])))
   \<and> cache_keys (syncCache ex_newImage ex_pair []) = [''1'', ''2'']
   \<and> cache_keys (syncCache ex_newImage (removeSticker ''1'' ex_pair)
                  (syncCache ex_newImage ex_pair [])) = [''2'']
   \<and> ''1'' \<notin> set (map s_id (removeSticker ''1'' ex_pair))
   \<and> \<not> cache_has (syncCache ex_newImage (removeSticker ''1'' ex_pair)
            (syncCache ex_newImage ex_pair [])) ''1''
   \<and> drawStickers (syncCache ex_newImage (removeSticker ''1'' ex_pair)
          (syncCache ex_newImage ex_pair [])) None ex_pair ex_canvas
       = drawStickers (syncCache ex_newImage (removeSticker ''1'' ex_pair)
          (syncCache ex_newImage ex_pair [])) None (filter (\<lambda>s. s_id s \<noteq> ''1'') ex_pair)
          ex_canvas"
proof -
  note T = syncCache_invariant [where m = "syncCache ex_newImage ex_pair []"
        and newImage = ex_newImage and ss = "removeSticker ''1'' ex_pair" and i = "''1''"
        and drag = None and stale = ex_pair and c = ex_canvas]
  have k1: "cache_keys (syncCache ex_newImage ex_pair []) = [''1'', ''2'']"
    by (simp add: cache_eval ex_pair_def newSticker_def decimal_eval Let_def)
  then have d1: "distinct (cache_keys (syncCache ex_newImage ex_pair []))" by simp
  have d2: "distinct (cache_keys (syncCache ex_newImage (removeSticker ''1'' ex_pair)
                  (syncCache ex_newImage ex_pair [])))"
    using T [THEN conjunct1] d1 by (rule mp)
  have k2: "cache_keys (syncCache ex_newImage (removeSticker ''1'' ex_pair)
                  (syncCache ex_newImage ex_pair [])) = [''2'']"
    by (simp add: cache_eval ex_pair_def newSticker_def decimal_eval Let_def)
  have r: "''1'' \<notin> set (map s_id (removeSticker ''1'' ex_pair))"
    using syncCache_invariant [where ss = ex_pair and i = "''1''",
        THEN conjunct2, THEN conjunct2, THEN conjunct1] .
  have e: "\<not> cache_has (syncCache ex_newImage (removeSticker ''1'' ex_pair)
            (syncCache ex_newImage ex_pair [])) ''1''
   \<and> drawStickers (syncCache ex_newImage (removeSticker ''1'' ex_pair)
          (syncCache ex_newImage ex_pair [])) None ex_pair ex_canvas
       = drawStickers (syncCache ex_newImage (removeSticker ''1'' ex_pair)
          (syncCache ex_newImage ex_pair [])) None (filter (\<lambda>s. s_id s \<noteq> ''1'') ex_pair)
          ex_canvas"
    using T [THEN conjunct2, THEN conjunct2, THEN conjunct2] r by (rule mp)
  show ?thesis using d1 d2 k1 k2 r e by (intro conjI) simp_all
qed

section \<open>The renderer: what a pass paints\<close>

lemma drawImage_paint:
  "drawImage im dx dy dw dh c =
     (if i_state im = Broken then Inl InvalidStateError
      else Inr (c\<lparr>painted := painted c @ imagePaint im dx dy dw dh (transform (ctx c))\<rparr>))"
  by (cases "i_state im") (auto simp: drawImage_def imagePaint_def)

lemma drawSticker_finished:
  assumes "case cache_get m (s_id s) of None \<Rightarrow> True | Some im \<Rightarrow> i_state im \<noteq> Broken"
  shows "drawSticker m None s c =
           (Finished, c\<lparr>painted := painted c @ stickerPaint m (transform (ctx c)) s\<rparr>)"
proof (cases "cache_get m (s_id s)")
  case None
  then show ?thesis by (simp add: drawSticker_def stickerPaint_def)
next
  case (Some im)
  with assms have nb: "i_state im \<noteq> Broken" by simp
  show ?thesis
  proof (cases "complete im")
    case True
    then show ?thesis
      using Some nb
      by (simp add: drawSticker_def stickerPaint_def drawImage_paint Let_def save_def
          translate_def rotate_ctx_def restore_def)
  next
    case False
    then have "imagePaint im dx dy dw dh xf = []" for dx dy dw dh xf
      by (simp add: imagePaint_def complete_def)
    then show ?thesis using Some False by (simp add: drawSticker_def stickerPaint_def)
  qed
qed

lemma drawStickers_finished:
  "broken_free m ss \<Longrightarrow>
   drawStickers m None ss c =
     (Finished, c\<lparr>painted := painted c @ concat (map (stickerPaint m (transform (ctx c))) ss)\<rparr>)"
proof (induction ss arbitrary: c)
  case Nil
  then show ?case by simp
next
  case (Cons s ss)
  then have s: "case cache_get m (s_id s) of None \<Rightarrow> True | Some im \<Rightarrow> i_state im \<noteq> Broken"
    and ss: "broken_free m ss" by (simp_all add: broken_free_def)
  show ?case
    by (simp add: drawSticker_finished [OF s] Cons.IH [OF ss])
qed

text \<open>
  So a pass over a list in which no sticker has a broken image in the cache completes, and
  paints for each sticker of the list, in order, what \<open>stickerPaint\<close> gives: nothing for
  a sticker with no entry in the cache or with an image that is still loading, and the
  image, centred on the sticker and rotated, for a sticker whose image is loaded.
\<close>

lemma stickerPaint_skip: "\<not> drawable m s \<Longrightarrow> stickerPaint m xf s = []"
  by (auto simp: drawable_def stickerPaint_def imagePaint_def complete_def split: option.splits)

lemma stickerPaint_loaded:
  assumes "cache_get m (s_id s) = Some im" "i_state im = Loaded" "0 < i_width im" "0 < i_height im"
  shows "stickerPaint m xf s =
           [DrawImage im (js_div (js_neg (s_width s)) (Num 2))
              (js_div (js_neg (s_height s)) (Num 2)) (s_width s) (s_height s)
              (xf @ [Translate (s_x s) (s_y s),
                     Rotate (js_div (js_mul (s_rotation s) math_PI) (Num 180))])]"
  using assms by (simp add: stickerPaint_def imagePaint_def)

lemma drawSticker_status_free:
  "fst (drawSticker m drag s c) =
     (case cache_get m (s_id s) of
        None \<Rightarrow> Finished
      | Some im \<Rightarrow> if i_state im = Broken then Threw InvalidStateError else Finished)"
  by (auto simp: drawSticker_def complete_def drawImage_paint Let_def split: option.splits)

lemma drawStickers_status:
  "fst (drawStickers m drag ss c) = Finished \<longleftrightarrow> broken_free m ss"
proof (induction ss arbitrary: c)
  case Nil
  then show ?case by (simp add: broken_free_def)
next
  case (Cons s ss)
  obtain st c' where d: "drawSticker m drag s c = (st, c')" by (cases "drawSticker m drag s c")
  have st: "st = (case cache_get m (s_id s) of
        None \<Rightarrow> Finished
      | Some im \<Rightarrow> if i_state im = Broken then Threw InvalidStateError else Finished)"
    using drawSticker_status_free [of m drag s c] d by simp
  show ?case
    using Cons.IH [of c'] d st
    by (cases st) (auto simp: broken_free_def split: option.splits if_splits)
qed

lemma drawLines_paint:
  "drawLines ls i x y lh c = c\<lparr>painted := painted c @ linePaint ls i x y lh (ctx c)\<rparr>"
  by (induction ls arbitrary: i c) (simp_all add: strokeText_def fillText_def)

lemma drawText_paint:
  "drawText mt fs text y bl c =
     (if text = [] then c
      else c\<lparr>ctx := (ctx c)\<lparr>textBaseline := bl\<rparr>,
             painted := painted c @ textPaint mt fs text y bl (c_width c) (ctx c)\<rparr>)"
  by (simp add: drawText_def textPaint_def Let_def drawLines_paint)

lemma set_lineWidth_ctx:
  "set_lineWidth v (c\<lparr>ctx := s\<rparr>) =
     c\<lparr>ctx := (case v of Num x \<Rightarrow> if 0 < x then s\<lparr>lineWidth := v\<rparr> else s | _ \<Rightarrow> s)\<rparr>"
  by (simp add: set_lineWidth_def split: jsnum.splits)

lemma textPhase_ctx:
  "textPhase mt pr c =
     (let fontSize = math_floor (js_mul (of_uint (c_width c)) literal_0_1);
          c3 = c\<lparr>ctx := textCtx (c_width c) (ctx c)\<rparr>;
          c4 = drawText mt fontSize (topText pr)
                 (js_mul (of_uint (c_height c3)) literal_0_05) ''top'' c3
      in drawText mt fontSize (bottomText pr)
           (js_mul (of_uint (c_height c4)) literal_0_95) ''bottom'' c4)"
proof -
  show ?thesis
    unfolding textPhase_def textCtx_def Let_def
    by (simp add: set_lineWidth_ctx split: jsnum.splits)
qed

lemma textPaint_cong:
  "font s = font s' \<Longrightarrow> s\<lparr>textBaseline := bl\<rparr> = s'\<lparr>textBaseline := bl\<rparr> \<Longrightarrow>
   textPaint mt fs text y bl w s = textPaint mt fs text y bl w s'"
  by (simp add: textPaint_def)

lemma textPhase_idem:
  "textPhase mt pr (c\<lparr>ctx := ctx (textPhase mt pr c)\<rparr>) = textPhase mt pr c"
proof -
  let ?w = "c_width c"
  let ?s = "textCtx ?w (ctx c)"
  have f: "font (textCtx ?w s\<lparr>textBaseline := b\<rparr>) = font ?s" for s b
    by (simp add: textCtx_def Let_def split: jsnum.splits)
  have i: "textCtx ?w (textCtx ?w (ctx c)\<lparr>textBaseline := b\<rparr>)\<lparr>textBaseline := b'\<rparr>
             = ?s\<lparr>textBaseline := b'\<rparr>" for b b'
    by (simp add: textCtx_def Let_def split: jsnum.splits)
  have i0: "textCtx ?w (textCtx ?w (ctx c)) = ?s"
    by (simp add: textCtx_def Let_def split: jsnum.splits)
  have f0: "font (textCtx ?w (textCtx ?w (ctx c)\<lparr>textBaseline := b\<rparr>)) = font ?s" for b
    by (simp add: textCtx_def Let_def split: jsnum.splits)
  have f1: "font (textCtx ?w (textCtx ?w (ctx c)\<lparr>textBaseline := b\<rparr>)\<lparr>textBaseline := b'\<rparr>) = font ?s" for b b'
    by (simp add: textCtx_def Let_def split: jsnum.splits)
  have f2: "font (?s\<lparr>textBaseline := b\<rparr>) = font ?s" for b by simp
  have tp: "textPaint mt fs t y bl ?w s1 = textPaint mt fs t y bl ?w s2"
    if "font s1 = font s2" and "s1\<lparr>textBaseline := bl\<rparr> = s2\<lparr>textBaseline := bl\<rparr>"
    for fs t y bl s1 s2 using that by (rule textPaint_cong)
  show ?thesis
  proof (cases "topText pr = []"; cases "bottomText pr = []")
    assume "topText pr = []" "bottomText pr = []"
    then show ?thesis by (simp add: textPhase_ctx Let_def drawText_paint i0)
  next
    assume a: "topText pr = []" "bottomText pr \<noteq> []"
    show ?thesis
      using a
      by (simp add: textPhase_ctx Let_def drawText_paint i f0
          tp [OF f0 i, of _ _ _ "''bottom''" "''bottom''"])
  next
    assume a: "topText pr \<noteq> []" "bottomText pr = []"
    show ?thesis
      using a
      by (simp add: textPhase_ctx Let_def drawText_paint i f0
          tp [OF f0 i, of _ _ _ "''top''" "''top''"])
  next
    assume a: "topText pr \<noteq> []" "bottomText pr \<noteq> []"
    have t1: "textPaint mt fs t y ''top'' ?w (textCtx ?w (?s\<lparr>textBaseline := ''bottom''\<rparr>))
              = textPaint mt fs t y ''top'' ?w ?s" for fs t y
      by (rule tp [OF f0 i])
    have t2: "textPaint mt fs t y ''bottom'' ?w
                (textCtx ?w (?s\<lparr>textBaseline := ''bottom''\<rparr>)\<lparr>textBaseline := ''top''\<rparr>)
              = textPaint mt fs t y ''bottom'' ?w (?s\<lparr>textBaseline := ''top''\<rparr>)" for fs t y
      by (rule tp) (simp_all add: f1 i)
    show ?thesis
      using a by (simp add: textPhase_ctx Let_def drawText_paint i t1 t2)
  qed
qed

section \<open>The renderer: a pass as a whole\<close>

lemma textPhase_frame:
  "textPhase mt pr c =
     c\<lparr>ctx := ctx (textPhase mt pr c), painted := painted (textPhase mt pr c)\<rparr>"
  by (simp add: textPhase_ctx Let_def drawText_paint)

lemma textPhase_transform:
  "transform (ctx (textPhase mt pr c)) = transform (ctx c)"
  by (simp add: textPhase_ctx textCtx_def Let_def drawText_paint split: jsnum.splits)

lemma drawCanvas_finished:
  assumes "has_2d c" "i_state img \<noteq> Broken" "broken_free m (stickers pr)"
  shows "drawCanvas mt img m None pr (Some c) =
           \<lparr>surface = Some (textPhase mt pr
               ((sizePhase img c)\<lparr>painted := painted (sizePhase img c)
                  @ imagePaint img (Num 0) (Num 0) (of_uint (c_width (sizePhase img c)))
                      (of_uint (c_height (sizePhase img c))) (transform (ctx (sizePhase img c)))
                  @ concat (map (stickerPaint m (transform (ctx (sizePhase img c)))) (stickers pr))\<rparr>)),
            onload_set = (\<not> complete img), status = Finished\<rparr>"
  using assms
  by (simp add: drawCanvas_def Let_def drawImage_paint drawStickers_finished)

lemma drawCanvas_status:
  assumes "has_2d c"
  shows "status (drawCanvas mt img m drag pr (Some c)) = Finished
         \<longleftrightarrow> i_state img \<noteq> Broken \<and> broken_free m (stickers pr)"
proof (cases "i_state img = Broken")
  case True
  then show ?thesis using assms by (simp add: drawCanvas_def Let_def drawImage_paint)
next
  case False
  let ?c2 = "(sizePhase img c)\<lparr>painted := painted (sizePhase img c)
      @ imagePaint img (Num 0) (Num 0) (of_uint (c_width (sizePhase img c)))
          (of_uint (c_height (sizePhase img c))) (transform (ctx (sizePhase img c)))\<rparr>"
  obtain st c3 where d: "drawStickers m drag (stickers pr) ?c2 = (st, c3)"
    by (cases "drawStickers m drag (stickers pr) ?c2")
  have "st = Finished \<longleftrightarrow> broken_free m (stickers pr)"
    using drawStickers_status [of m drag "stickers pr" ?c2] d by simp
  then show ?thesis
    using assms False d
    by (cases st) (simp_all add: drawCanvas_def Let_def drawImage_paint)
qed


lemma sizePhase_cases:
  "sizePhase img c =
     (if js_strict_ne (of_uint (c_width c)) (js_mul (of_uint (img_width img)) (scale_of img))
         \<or> js_strict_ne (of_uint (c_height c)) (js_mul (of_uint (img_height img)) (scale_of img))
      then set_size (to_unsigned_long (js_mul (of_uint (img_width img)) (scale_of img)))
             (to_unsigned_long (js_mul (of_uint (img_height img)) (scale_of img))) c
      else clearRect (Num 0) (Num 0) (of_uint (c_width c)) (of_uint (c_height c)) c)"
  by (simp add: sizePhase_def Let_def)

lemma sizePhase_clean:
  assumes "transform (ctx c) = []"
  shows "painted (sizePhase img c) = [] \<and> transform (ctx (sizePhase img c)) = []
         \<and> has_2d (sizePhase img c) = has_2d c"
  using assms by (simp add: sizePhase_cases set_size_def clearRect_def default_ctx_def)

lemma sizePhase_again:
  assumes c1: "c1 = sizePhase img c" and t: "transform (ctx c) = []"
      and d: "c_width d = c_width c1" "c_height d = c_height c1" "has_2d d = has_2d c1"
             "saved d = saved c1" "transform (ctx d) = []"
  shows "sizePhase img d = c1 \<or> sizePhase img d = c1\<lparr>ctx := ctx d\<rparr>"
proof -
  let ?w = "js_mul (of_uint (img_width img)) (scale_of img)"
  let ?h = "js_mul (of_uint (img_height img)) (scale_of img)"
  let ?ne = "\<lambda>x. js_strict_ne (of_uint (c_width x)) ?w \<or> js_strict_ne (of_uint (c_height x)) ?h"
  show ?thesis
  proof (cases "?ne d")
    case True
    have "?ne c"
    proof (rule ccontr)
      assume "\<not> ?ne c"
      then have "c_width c1 = c_width c \<and> c_height c1 = c_height c"
        by (simp add: c1 sizePhase_cases clearRect_def)
      with \<open>\<not> ?ne c\<close> True d show False by simp
    qed
    then have "c1 = set_size (to_unsigned_long ?w) (to_unsigned_long ?h) c"
      by (simp add: c1 sizePhase_cases)
    moreover have "sizePhase img d = set_size (to_unsigned_long ?w) (to_unsigned_long ?h) d"
      using True by (simp add: sizePhase_cases)
    moreover have "has_2d d = has_2d c" using d(3) c1 by (simp add: sizePhase_cases set_size_def clearRect_def)
    ultimately have "sizePhase img d = c1" by (simp add: set_size_def)
    then show ?thesis ..
  next
    case False
    then have "sizePhase img d = d\<lparr>painted := []\<rparr>"
      using d(5) by (simp add: sizePhase_cases clearRect_def)
    moreover have "painted c1 = []" using sizePhase_clean [OF t, of img] c1 by simp
    ultimately have "sizePhase img d = c1\<lparr>ctx := ctx d\<rparr>"
      using d by (intro canvas.equality) simp_all
    then show ?thesis ..
  qed
qed

lemma drawCanvas_broken_background:
  assumes "has_2d c" "i_state img = Broken"
  shows "drawCanvas mt img m drag pr (Some c) =
           \<lparr>surface = Some (sizePhase img c), onload_set = False,
            status = Threw InvalidStateError\<rparr>"
  using assms by (simp add: drawCanvas_def Let_def drawImage_paint complete_def)

text \<open>
  With no drag target and no sticker whose cached image is broken, a render pass run on a
  canvas whose transform is the identity (as it is on a fresh canvas and after every
  completed pass), followed by a second pass with the same background element, cache,
  captions and sticker list, leaves the canvas exactly as the first pass left it: the same
  size and the same painted content, hence the same pixels. This covers a background
  that is loaded, still loading or broken.
\<close>

lemma drawCanvas_idempotent:
  assumes bf: "broken_free m (stickers pr)"
      and inv: "\<forall>c. cv = Some c \<longrightarrow> transform (ctx c) = []"
  shows "drawCanvas mt img m None pr (surface (drawCanvas mt img m None pr cv))
           = drawCanvas mt img m None pr cv"
proof (cases cv)
  case None
  then show ?thesis by (simp add: drawCanvas_def)
next
  case (Some c)
  show ?thesis
  proof (cases "has_2d c")
    case False
    then show ?thesis using Some by (simp add: drawCanvas_def)
  next
    case True
    from inv Some have t: "transform (ctx c) = []" by simp
    define c1 where "c1 = sizePhase img c"
    have cl: "painted c1 = []" "transform (ctx c1) = []" "has_2d c1"
      using sizePhase_clean [OF t, of img] True by (simp_all add: c1_def)
    show ?thesis
    proof (cases "i_state img = Broken")
      case br: True
      have "sizePhase img c1 = c1 \<or> sizePhase img c1 = c1\<lparr>ctx := ctx c1\<rparr>"
        using c1_def t by (rule sizePhase_again) (simp_all add: cl)
      then have "sizePhase img c1 = c1" by auto
      then show ?thesis
        using Some drawCanvas_broken_background [OF True br, of mt m None pr]
          drawCanvas_broken_background [OF cl(3) br, of mt m None pr]
        by (simp add: c1_def)
    next
      case ok: False
      define P where "P = imagePaint img (Num 0) (Num 0) (of_uint (c_width c1))
          (of_uint (c_height c1)) [] @ concat (map (stickerPaint m []) (stickers pr))"
      define c' where "c' = textPhase mt pr (c1\<lparr>painted := P\<rparr>)"
      have o1: "drawCanvas mt img m None pr (Some c) =
                  \<lparr>surface = Some c', onload_set = (\<not> complete img), status = Finished\<rparr>"
        using drawCanvas_finished [OF True ok bf, of mt] cl
        by (simp add: c'_def P_def c1_def)
      have fr: "c' = c1\<lparr>ctx := ctx c', painted := painted c'\<rparr>"
        using textPhase_frame [of mt pr "c1\<lparr>painted := P\<rparr>"] by (simp add: c'_def)
      have tr: "transform (ctx c') = []"
        using textPhase_transform [of mt pr "c1\<lparr>painted := P\<rparr>"] cl by (simp add: c'_def)
      have fields: "c_width c' = c_width c1" "c_height c' = c_height c1" "has_2d c' = has_2d c1"
        "saved c' = saved c1"
        by (subst fr, simp)+
      have h2: "has_2d c'" using fields cl by simp
      from sizePhase_again [OF c1_def t fields tr]
      have "textPhase mt pr ((sizePhase img c')\<lparr>painted := painted (sizePhase img c')
              @ imagePaint img (Num 0) (Num 0) (of_uint (c_width (sizePhase img c')))
                  (of_uint (c_height (sizePhase img c'))) (transform (ctx (sizePhase img c')))
              @ concat (map (stickerPaint m (transform (ctx (sizePhase img c')))) (stickers pr))\<rparr>)
            = c'"
      proof
        assume "sizePhase img c' = c1"
        then show ?thesis using cl by (simp add: c'_def P_def)
      next
        assume e: "sizePhase img c' = c1\<lparr>ctx := ctx c'\<rparr>"
        have sw: "c1\<lparr>ctx := ctx c', painted := P\<rparr> = c1\<lparr>painted := P, ctx := ctx c'\<rparr>"
          by (rule canvas.equality) simp_all
        have "textPhase mt pr (c1\<lparr>ctx := ctx c', painted := P\<rparr>) = c'"
          unfolding sw unfolding c'_def by (rule textPhase_idem)
        then show ?thesis using cl tr by (simp add: e P_def)
      qed
      then have "drawCanvas mt img m None pr (Some c') =
                  \<lparr>surface = Some c', onload_set = (\<not> complete img), status = Finished\<rparr>"
        using drawCanvas_finished [OF h2 ok bf, of mt] by simp
      then show ?thesis using Some o1 by simp
    qed
  qed
qed

lemma drawCanvas_idempotent_example:
  "broken_free [(''1'', ex_loaded ''a'')] (stickers ex_props)
   \<and> transform (ctx ex_canvas) = []
   \<and> drawCanvas ex_measure ex_wide [(''1'', ex_loaded ''a'')] None ex_props
        (surface (drawCanvas ex_measure ex_wide [(''1'', ex_loaded ''a'')] None ex_props
           (Some ex_canvas)))
      = drawCanvas ex_measure ex_wide [(''1'', ex_loaded ''a'')] None ex_props (Some ex_canvas)"
proof -
  have b: "broken_free [(''1'', ex_loaded ''a'')] (stickers ex_props)"
    by (simp add: broken_free_def ex_props_def cache_get_def ex_loaded_def)
  have t: "transform (ctx ex_canvas) = []" by (simp add: ex_canvas_def default_ctx_def)
  then have inv: "\<forall>c. Some ex_canvas = Some c \<longrightarrow> transform (ctx c) = []" by simp
  show ?thesis using b t drawCanvas_idempotent [OF b inv] by (intro conjI)
qed

lemma drawSticker_ctx:
  "fst (drawSticker m drag s c) = Finished \<Longrightarrow> ctx (snd (drawSticker m drag s c)) = ctx c"
  by (auto simp: drawSticker_def drawImage_paint Let_def save_def translate_def rotate_ctx_def
      restore_def strokeRect_def set_lineWidth_def split: option.splits if_splits)

lemma drawStickers_ctx:
  "fst (drawStickers m drag ss c) = Finished \<Longrightarrow> ctx (snd (drawStickers m drag ss c)) = ctx c"
proof (induction ss arbitrary: c)
  case Nil
  then show ?case by simp
next
  case (Cons s ss)
  obtain st c' where d: "drawSticker m drag s c = (st, c')" by (cases "drawSticker m drag s c")
  show ?case
  proof (cases st)
    case Finished
    then have "ctx c' = ctx c" using drawSticker_ctx [of m drag s c] d by simp
    moreover have "fst (drawStickers m drag ss c') = Finished" using Cons.prems d Finished by simp
    ultimately show ?thesis using Cons.IH [of c'] d Finished by simp
  next
    case (Threw e)
    then show ?thesis using Cons.prems d by simp
  qed
qed


text \<open>
  A completed pass leaves the transform the identity, so the passes that follow start from
  a canvas of the kind the lemma above asks for.
\<close>

lemma drawCanvas_keeps_identity:
  assumes fin: "status (drawCanvas mt img m drag pr (Some c)) = Finished"
      and t: "transform (ctx c) = []"
  shows "map_option (\<lambda>c'. transform (ctx c')) (surface (drawCanvas mt img m drag pr (Some c)))
           = Some []"
proof (cases "has_2d c")
  case False
  then show ?thesis using t by (simp add: drawCanvas_def)
next
  case True
  let ?c1 = "sizePhase img c"
  let ?c2 = "?c1\<lparr>painted := painted ?c1
      @ imagePaint img (Num 0) (Num 0) (of_uint (c_width ?c1)) (of_uint (c_height ?c1))
          (transform (ctx ?c1))\<rparr>"
  from fin True have nb: "i_state img \<noteq> Broken" by (simp add: drawCanvas_status)
  obtain st c3 where d: "drawStickers m drag (stickers pr) ?c2 = (st, c3)"
    by (cases "drawStickers m drag (stickers pr) ?c2")
  have st: "st = Finished"
    using fin True nb d by (cases st) (simp_all add: drawCanvas_def Let_def drawImage_paint)
  have "transform (ctx ?c2) = []" using sizePhase_clean [OF t, of img] by simp
  then have "transform (ctx c3) = []"
    using drawStickers_ctx [of m drag "stickers pr" ?c2] d st by simp
  then show ?thesis
    using True nb d st
    by (simp add: drawCanvas_def Let_def drawImage_paint textPhase_transform)
qed

lemma drawSticker_size:
  "c_width (snd (drawSticker m drag s c)) = c_width c
   \<and> c_height (snd (drawSticker m drag s c)) = c_height c"
  by (auto simp: drawSticker_def drawImage_paint Let_def save_def translate_def rotate_ctx_def
      restore_def strokeRect_def set_lineWidth_def split: option.splits)

lemma drawStickers_size:
  "c_width (snd (drawStickers m drag ss c)) = c_width c
   \<and> c_height (snd (drawStickers m drag ss c)) = c_height c"
proof (induction ss arbitrary: c)
  case Nil
  then show ?case by simp
next
  case (Cons s ss)
  obtain st c' where d: "drawSticker m drag s c = (st, c')" by (cases "drawSticker m drag s c")
  then have "c_width c' = c_width c \<and> c_height c' = c_height c"
    using drawSticker_size [of m drag s c] by simp
  then show ?case using Cons.IH [of c'] d by (cases st) simp_all
qed

lemma textPhase_size:
  "c_width (textPhase mt pr c) = c_width c \<and> c_height (textPhase mt pr c) = c_height c"
  by (subst (1 2) textPhase_frame) simp







section \<open>Caption line breaking\<close>

lemma js_lt_le_trans: "js_lt a b \<Longrightarrow> js_le b c \<Longrightarrow> js_lt a c"
  by (cases a; cases b; cases c) simp_all

lemma split_space_nonempty: "split_space s \<noteq> []"
  by (induction s) (auto split: list.splits)

lemma split_space_join: "concat (map (\<lambda>w. w @ '' '') (split_space s)) = s @ '' ''"
proof (induction s)
  case Nil
  then show ?case by simp
next
  case (Cons c cs)
  show ?case
  proof (cases "c = CHR '' ''")
    case True
    then show ?thesis using Cons by simp
  next
    case False
    obtain w ws where sp: "split_space cs = w # ws"
      using split_space_nonempty [of cs] by (cases "split_space cs") auto
    then show ?thesis using Cons False by simp
  qed
qed

lemma wrapLoop_length: "length lines < length (wrapLoop meas maxW ws n line lines)"
proof (induction ws arbitrary: n line lines)
  case Nil
  then show ?case by simp
next
  case (Cons w ws)
  have "length lines < length (wrapLoop meas maxW ws (Suc n) (line @ w @ '' '') lines)"
    by (rule Cons.IH)
  moreover have "length lines < length (wrapLoop meas maxW ws (Suc n) (w @ '' '') (lines @ [line]))"
    using Cons.IH [where n = "Suc n" and line = "w @ '' ''" and lines = "lines @ [line]"] by simp
  ultimately show ?case by (simp add: Let_def)
qed

lemma wrapLoop_breaks:
  assumes "ws \<noteq> []" "0 < n"
      and "js_gt (meas (line @ concat (map (\<lambda>w. w @ '' '') ws))) maxW"
  shows "Suc (length lines) < length (wrapLoop meas maxW ws n line lines)"
  using assms
proof (induction ws arbitrary: n line lines)
  case Nil
  then show ?case by simp
next
  case (Cons w ws)
  show ?case
  proof (cases "js_gt (meas (line @ w @ '' '')) maxW")
    case True
    have "length (lines @ [line]) < length (wrapLoop meas maxW ws (Suc n) (w @ '' '') (lines @ [line]))"
      by (rule wrapLoop_length)
    then show ?thesis using True Cons.prems(2) by (simp add: Let_def)
  next
    case False
    then have ne: "ws \<noteq> []" using Cons.prems(3) by auto
    have "Suc (length lines) < length (wrapLoop meas maxW ws (Suc n) (line @ w @ '' '') lines)"
      using Cons.prems(3) by (intro Cons.IH [OF ne]) simp_all
    then show ?thesis using False by (simp add: Let_def)
  qed
qed

lemma wrapLoop_fits:
  assumes "\<forall>l\<in>set lines. \<not> js_gt (meas l) maxW"
      and "0 < n \<longrightarrow> \<not> js_gt (meas line) maxW"
      and "\<forall>w\<in>set ws. \<not> js_gt (meas (w @ '' '')) maxW"
      and "n = 0 \<longrightarrow> line = [] \<and> ws \<noteq> []"
  shows "\<forall>l\<in>set (wrapLoop meas maxW ws n line lines). \<not> js_gt (meas l) maxW"
  using assms
proof (induction ws arbitrary: n line lines)
  case Nil
  then show ?case by auto
next
  case (Cons w ws)
  show ?case
  proof (cases "js_gt (meas (line @ w @ '' '')) maxW \<and> 0 < n")
    case True
    have "\<forall>l\<in>set (wrapLoop meas maxW ws (Suc n) (w @ '' '') (lines @ [line])). \<not> js_gt (meas l) maxW"
      using Cons.prems True by (intro Cons.IH) auto
    then show ?thesis using True by (simp add: Let_def)
  next
    case False
    have fit: "\<not> js_gt (meas (line @ w @ '' '')) maxW"
    proof (cases "0 < n")
      case True
      then show ?thesis using False by simp
    next
      case n0: False
      then have "line = []" using Cons.prems(4) by simp
      then show ?thesis using Cons.prems(3) by simp
    qed
    have "\<forall>l\<in>set (wrapLoop meas maxW ws (Suc n) (line @ w @ '' '') lines). \<not> js_gt (meas l) maxW"
      using Cons.prems fit by (intro Cons.IH) auto
    then show ?thesis using False by (auto simp: Let_def)
  qed
qed

text \<open>
  Claim C4, as amended. The loop measures, and emits, every line with a trailing space.
  For every caption whose uppercased form is wider than the maximum line width, in which
  every word followed by one space fits within that width, and which a trailing space
  does not make narrower, the greedy line breaking produces more than one line, and no
  line it produces is wider than the maximum line width.
\<close>

theorem wrapText_lines_fit:
  assumes wide: "js_gt (meas (toUpperCase text)) maxWidth"
      and fit: "\<forall>w\<in>set (split_space (toUpperCase text)). \<not> js_gt (meas (w @ '' '')) maxWidth"
      and space: "js_le (meas (toUpperCase text)) (meas (toUpperCase text @ '' ''))"
  shows "1 < length (wrapText meas maxWidth text)
         \<and> (\<forall>l\<in>set (wrapText meas maxWidth text). \<not> js_gt (meas l) maxWidth)"
proof -
  let ?u = "toUpperCase text"
  obtain w ws where sp: "split_space ?u = w # ws"
    using split_space_nonempty [of ?u] by (cases "split_space ?u") auto
  have all: "js_gt (meas (concat (map (\<lambda>w. w @ '' '') (split_space ?u)))) maxWidth"
    using wide space by (simp add: split_space_join js_gt_def js_lt_le_trans)
  have w: "\<not> js_gt (meas (w @ '' '')) maxWidth" using fit sp by simp
  have ne: "ws \<noteq> []"
  proof
    assume "ws = []"
    with all sp w show False by simp
  qed
  have first: "wrapText meas maxWidth text = wrapLoop meas maxWidth ws (Suc 0) (w @ '' '') []"
    by (simp add: wrapText_def sp Let_def)
  have "Suc (length ([] :: string list)) < length (wrapLoop meas maxWidth ws (Suc 0) (w @ '' '') [])"
    using all sp by (intro wrapLoop_breaks [OF ne]) simp_all
  then have many: "1 < length (wrapText meas maxWidth text)" by (simp add: first)
  have "\<forall>l\<in>set (wrapLoop meas maxWidth (split_space ?u) 0 [] []). \<not> js_gt (meas l) maxWidth"
    using fit split_space_nonempty [of ?u] by (intro wrapLoop_fits) simp_all
  then show ?thesis using many by (simp add: wrapText_def)
qed

theorem wrapText_lines_fit_witness:
  "js_gt (ex_measure [] (toUpperCase ''abcdefgh x'')) (Num 95)
   \<and> \<not> js_gt (ex_measure [] (''ABCDEFGH'' @ '' '')) (Num 95)
   \<and> \<not> js_gt (ex_measure [] (''X'' @ '' '')) (Num 95)
   \<and> js_le (ex_measure [] (toUpperCase ''abcdefgh x'')) (ex_measure [] (toUpperCase ''abcdefgh x'' @ '' ''))
   \<and> 1 < length (wrapText (ex_measure []) (Num 95) ''abcdefgh x'')
   \<and> \<not> js_gt (ex_measure [] ''ABCDEFGH '') (Num 95)
   \<and> wrapText (ex_measure []) (Num 95) ''abcdefgh x'' = [''ABCDEFGH '', ''X '']"
proof -
  have u: "toUpperCase ''abcdefgh x'' = ''ABCDEFGH X''" by code_simp
  have wide: "js_gt (ex_measure [] (toUpperCase ''abcdefgh x'')) (Num 95)"
    by (simp add: u ex_measure_def js_gt_def)
  have fit: "\<forall>w\<in>set (split_space (toUpperCase ''abcdefgh x'')). \<not> js_gt (ex_measure [] (w @ '' '')) (Num 95)"
    by (simp add: u ex_measure_def js_gt_def)
  have space: "js_le (ex_measure [] (toUpperCase ''abcdefgh x''))
                 (ex_measure [] (toUpperCase ''abcdefgh x'' @ '' ''))"
    by (simp add: u ex_measure_def)
  have v: "wrapText (ex_measure []) (Num 95) ''abcdefgh x'' = [''ABCDEFGH '', ''X '']"
    by (simp add: u ex_measure_def js_gt_def wrapText_def)
  have r: "1 < length (wrapText (ex_measure []) (Num 95) ''abcdefgh x'')
         \<and> (\<forall>l\<in>set (wrapText (ex_measure []) (Num 95) ''abcdefgh x'').
               \<not> js_gt (ex_measure [] l) (Num 95))"
    using wrapText_lines_fit [OF wide fit space] .
  then have "\<not> js_gt (ex_measure [] ''ABCDEFGH '') (Num 95)" by (simp add: v)
  then show ?thesis using wide space r v by (simp add: ex_measure_def js_gt_def)
qed

lemma upper_abc: "toUpperCase ''abcdefghi x'' = ''ABCDEFGHI X''" by code_simp

text \<open>
  The claim as stated fails. On a surface 100 pixels wide the maximum line width is 95.
  With characters 10 pixels wide, the caption \<^verbatim>\<open>abcdefghi x\<close> is wider than that and
  each of its two words alone fits, but the first produced line, the first word with its
  trailing space, measures 100.
\<close>

theorem wrapText_counterexample:
  "js_mul (of_uint 100) literal_0_95 = Num 95
   \<and> js_gt (ex_measure [] (toUpperCase ''abcdefghi x'')) (Num 95)
   \<and> split_space (toUpperCase ''abcdefghi x'') = [''ABCDEFGHI'', ''X'']
   \<and> \<not> js_gt (ex_measure [] ''ABCDEFGHI'') (Num 95)
   \<and> \<not> js_gt (ex_measure [] ''X'') (Num 95)
   \<and> wrapText (ex_measure []) (Num 95) ''abcdefghi x'' = [''ABCDEFGHI '', ''X '']
   \<and> js_gt (ex_measure [] ''ABCDEFGHI '') (Num 95)"
proof -
  have "js_mul (of_uint 100) literal_0_95 = Num 95"
    unfolding literal_0_95_def by code_simp
  then show ?thesis
    by (simp add: upper_abc ex_measure_def js_gt_def wrapText_def)
qed

section \<open>The size of the surface\<close>

lemma drawCanvas_size:
  assumes "has_2d c"
  shows "map_option c_width (surface (drawCanvas mt img m drag pr (Some c)))
           = Some (c_width (sizePhase img c))
         \<and> map_option c_height (surface (drawCanvas mt img m drag pr (Some c)))
           = Some (c_height (sizePhase img c))"
proof (cases "i_state img = Broken")
  case True
  then show ?thesis using assms by (simp add: drawCanvas_def Let_def drawImage_paint)
next
  case False
  let ?c2 = "(sizePhase img c)\<lparr>painted := painted (sizePhase img c)
      @ imagePaint img (Num 0) (Num 0) (of_uint (c_width (sizePhase img c)))
          (of_uint (c_height (sizePhase img c))) (transform (ctx (sizePhase img c)))\<rparr>"
  obtain st c3 where d: "drawStickers m drag (stickers pr) ?c2 = (st, c3)"
    by (cases "drawStickers m drag (stickers pr) ?c2")
  have "c_width c3 = c_width (sizePhase img c) \<and> c_height c3 = c_height (sizePhase img c)"
    using drawStickers_size [of m drag "stickers pr" ?c2] d by simp
  then show ?thesis
    using assms False d
    by (cases st) (simp_all add: drawCanvas_def Let_def drawImage_paint textPhase_size)
qed

lemma scale_1078:
  "js_div (Num 800) (Num 1078) = Num (6684377925596283 / 9007199254740992)"
  "js_mul (Num 1078) (Num (6684377925596283 / 9007199254740992))
     = Num (7036874417766399 / 8796093022208)"
  "js_mul (Num 900) (Num (6684377925596283 / 9007199254740992))
     = Num (183591923005269 / 274877906944)"
  "to_unsigned_long (Num (7036874417766399 / 8796093022208)) = 799"
  "to_unsigned_long (Num (183591923005269 / 274877906944)) = 667"
  by code_simp+

lemma sizePhase_1078: "sizePhase ex_1078 ex_canvas = set_size 799 667 ex_canvas"
  by (simp add: sizePhase_cases ex_1078_def img_width_def img_height_def scale_of_def
      MAX_WIDTH_def of_uint_def scale_1078 math_min_def js_strict_ne_def ex_canvas_def
      del: js_div.simps js_mul.simps to_unsigned_long.simps)

text \<open>
  Claim C1 asks for a surface of width \<open>min w 800\<close>. The renderer computes the width as
  \<^verbatim>\<open>img.width * Math.min(1, 800 / img.width)\<close> in double arithmetic and the setter of
  \<^verbatim>\<open>canvas.width\<close> truncates it. For a background 1078 pixels wide the quotient rounds
  to \<open>6684377925596283 / 2 ^ 53\<close> and the product to \<open>800 - 2 ^ -43\<close>, so the surface is
  799 pixels wide, not 800 (and 667 high for a height of 900).
\<close>

theorem surface_width_1078:
  "map_option c_width
     (surface (drawCanvas ex_measure ex_1078 [] None ex_props (Some ex_canvas))) = Some 799
   \<and> map_option c_height
     (surface (drawCanvas ex_measure ex_1078 [] None ex_props (Some ex_canvas))) = Some 667"
proof -
  have h: "has_2d ex_canvas" by (simp add: ex_canvas_def)
  show ?thesis
    unfolding drawCanvas_size [OF h, THEN conjunct1] drawCanvas_size [OF h, THEN conjunct2]
      sizePhase_1078
    by (simp add: set_size_def)
qed

lemma scale_1600:
  "js_div (Num 800) (Num 1600) = Num (1 / 2)"
  "js_mul (Num 1600) (Num (1 / 2)) = Num 800"
  "js_mul (Num 900) (Num (1 / 2)) = Num 450"
  by code_simp+

text \<open>
  The example of the specification: a background of 1600 by 900 gives a surface of 800 by
  450, the scale \<open>1 / 2\<close> being exact.
\<close>

lemma surface_1600x900:
  "map_option c_width
     (surface (drawCanvas ex_measure ex_wide [] None ex_props (Some ex_canvas))) = Some 800
   \<and> map_option c_height
     (surface (drawCanvas ex_measure ex_wide [] None ex_props (Some ex_canvas))) = Some 450"
proof -
  have h: "has_2d ex_canvas" by (simp add: ex_canvas_def)
  have "sizePhase ex_wide ex_canvas = ex_canvas"
    by (simp add: sizePhase_cases ex_wide_def img_width_def img_height_def scale_of_def
      MAX_WIDTH_def of_uint_def scale_1600 math_min_def js_strict_ne_def ex_canvas_def
      clearRect_def default_ctx_def del: js_div.simps js_mul.simps)
  then show ?thesis
    unfolding drawCanvas_size [OF h, THEN conjunct1] drawCanvas_size [OF h, THEN conjunct2]
    by (simp add: ex_canvas_def)
qed

lemma to_unsigned_long_of_nat: "n < 2 ^ 32 \<Longrightarrow> to_unsigned_long (Num (of_nat n)) = n"
  by (simp add: nat_mod_distrib nat_power_eq)

lemma binary64_pos: "0 < x \<Longrightarrow> binary64 x = binary64_mag x"
  by (simp add: binary64_def)

lemma rel_err_bounds:
  fixes q s :: rat
  assumes "0 < q" "\<bar>s - q\<bar> \<le> q / 2 ^ 53"
  shows "q - q / 2 ^ 53 \<le> s" "s \<le> q + q / 2 ^ 53" "0 < s"
proof -
  have a: "s - q \<le> q / 2 ^ 53" "- (s - q) \<le> q / 2 ^ 53"
    using assms(2) by (simp_all only: abs_le_iff)
  show "q - q / 2 ^ 53 \<le> s" "s \<le> q + q / 2 ^ 53" using a by linarith+
  have "q / 2 ^ 53 \<le> q / 2" using assms(1) by (intro divide_left_mono) simp_all
  then show "0 < s" using a assms(1) by linarith
qed

lemma scale_small:
  assumes "i_width img \<le> 800"
  shows "scale_of img = Num 1"
proof (cases "img_width img = 0")
  case True
  then show ?thesis
    by (simp add: scale_of_def MAX_WIDTH_def of_uint_def math_min_def inf_of_sign_def)
next
  case False
  let ?w = "img_width img"
  have w: "0 < ?w" "?w \<le> 800" using False assms by (simp_all add: img_width_def split: if_splits)
  then have q: "(1::rat) \<le> 800 / of_nat ?w" by (simp add: le_divide_eq)
  have qp: "(0::rat) < 800 / of_nat ?w" using q by linarith
  have "js_le (Num 1) (binary64 (800 / of_nat ?w))"
    using binary64_mag_ge_one [OF q] binary64_pos [OF qp] by simp
  moreover have "binary64 (800 / of_nat ?w) \<noteq> NaN"
    using binary64_pos [OF qp] binary64_mag_not_NaN [of "800 / of_nat ?w"] by simp
  ultimately show ?thesis
    using w by (simp add: scale_of_def MAX_WIDTH_def of_uint_def math_min_def)
qed

lemma scale_large:
  assumes l: "i_state img = Loaded" and w: "800 < i_width img" "i_width img < 2 ^ 32"
  shows "\<exists>s. scale_of img = Num s \<and> 0 < s \<and> s < 1
           \<and> \<bar>of_nat (i_width img) * s - 800\<bar> \<le> 800 / 2 ^ 53"
proof -
  let ?w = "of_nat (i_width img) :: rat"
  let ?q = "800 / ?w"
  have wp: "801 \<le> ?w" "?w < 2 ^ 32"
  proof -
    have "801 \<le> i_width img" using w by simp
    then have "of_nat 801 \<le> ?w" by (simp only: of_nat_le_iff)
    then show "801 \<le> ?w" by simp
    have "?w < of_nat (2 ^ 32)" using w(2) by (simp only: of_nat_less_iff)
    then show "?w < 2 ^ 32" by simp
  qed
  have q0: "0 < ?q" using wp by simp
  have q1: "?q \<le> 800 / 801" using wp by (simp add: field_simps)
  have qlo: "1 / 2 ^ 23 \<le> ?q" using wp by (simp add: field_simps)
  have lo: "pow2 (- 1022) \<le> ?q"
  proof -
    have "pow2 (- 1022) \<le> pow2 (- 23)" by (rule pow2_mono) simp
    then show ?thesis using qlo by (simp add: pow2_def)
  qed
  have hi: "?q < pow2 1023"
  proof -
    have "pow2 0 \<le> pow2 1023" by (rule pow2_mono) simp
    then show ?thesis using q1 by (simp add: pow2_def)
  qed
  obtain s where s: "binary64_mag ?q = Num s" "\<bar>s - ?q\<bar> \<le> ?q / 2 ^ 53"
    using binary64_mag_error [OF lo hi] by blast
  have b: "binary64 ?q = Num s" using binary64_pos [OF q0] s(1) by simp
  have s0: "0 < s" using rel_err_bounds(3) [OF q0 s(2)] .
  have s1: "s < 1"
  proof -
    have "?q / 2 ^ 53 \<le> (800 / 801) / 2 ^ 53" using q1 by (intro divide_right_mono) simp_all
    then have "s \<le> 800 / 801 + (800 / 801) / 2 ^ 53"
      using rel_err_bounds(2) [OF q0 s(2)] q1 by linarith
    then show ?thesis by simp
  qed
  have "\<bar>s - ?q\<bar> * ?w \<le> ?q / 2 ^ 53 * ?w" using s(2) wp by (intro mult_right_mono) simp_all
  moreover have "\<bar>s - ?q\<bar> * ?w = \<bar>?w * s - 800\<bar>"
  proof -
    have "(s - ?q) * ?w = ?w * s - 800" using wp by (simp add: field_simps)
    moreover have "\<bar>s - ?q\<bar> * ?w = \<bar>(s - ?q) * ?w\<bar>" using wp by (simp add: abs_mult)
    ultimately show ?thesis by simp
  qed
  moreover have "?q / 2 ^ 53 * ?w = 800 / 2 ^ 53" using wp by simp
  ultimately have e: "\<bar>?w * s - 800\<bar> \<le> 800 / 2 ^ 53" by simp
  have "img_width img = i_width img" using l by (simp add: img_width_def)
  then have "scale_of img = Num s"
    using b s1 w by (simp add: scale_of_def MAX_WIDTH_def of_uint_def math_min_def)
  then show ?thesis using s0 s1 e by blast
qed

lemma width_large:
  assumes l: "i_state img = Loaded" and w: "800 < i_width img" "i_width img < 2 ^ 32"
  shows "\<exists>p. js_mul (of_uint (img_width img)) (scale_of img) = Num p \<and> 799 < p \<and> p < 801"
proof -
  let ?w = "of_nat (i_width img) :: rat"
  obtain s where s: "scale_of img = Num s" "0 < s" "s < 1" "\<bar>?w * s - 800\<bar> \<le> 800 / 2 ^ 53"
    using scale_large [OF assms] by blast
  let ?x = "?w * s"
  have xx: "?x - 800 \<le> 800 / 2 ^ 53" "- (?x - 800) \<le> 800 / 2 ^ 53"
    using s(4) by (simp_all only: abs_le_iff)
  have x: "800 - 800 / 2 ^ 53 \<le> ?x" "?x \<le> 800 + 800 / 2 ^ 53"
    using xx by linarith+
  have lo: "pow2 (- 1022) \<le> ?x"
  proof -
    have "pow2 (- 1022) \<le> pow2 0" by (rule pow2_mono) simp
    then show ?thesis using x(1) by (simp add: pow2_def)
  qed
  have hi: "?x < pow2 1023"
  proof -
    have "pow2 10 \<le> pow2 1023" by (rule pow2_mono) simp
    then show ?thesis using x(2) by (simp add: pow2_def)
  qed
  obtain p where p: "binary64_mag ?x = Num p" "\<bar>p - ?x\<bar> \<le> ?x / 2 ^ 53"
    using binary64_mag_error [OF lo hi] by blast
  have xpos: "0 < ?x" using x(1) by simp
  have b: "binary64 ?x = Num p" using binary64_pos [OF xpos] p(1) by simp
  have "?x / 2 ^ 53 \<le> (800 + 800 / 2 ^ 53) / 2 ^ 53" using x(2) by (intro divide_right_mono) simp_all
  then have pe: "\<bar>p - ?x\<bar> \<le> (800 + 800 / 2 ^ 53) / 2 ^ 53" using p(2) by linarith
  have pp: "p - ?x \<le> (800 + 800 / 2 ^ 53) / 2 ^ 53" "- (p - ?x) \<le> (800 + 800 / 2 ^ 53) / 2 ^ 53"
    using pe by (simp_all only: abs_le_iff)
  have "p \<le> 800 + 800 / 2 ^ 53 + (800 + 800 / 2 ^ 53) / 2 ^ 53" using pp(1) x(2) by linarith
  moreover have "800 - 800 / 2 ^ 53 - (800 + 800 / 2 ^ 53) / 2 ^ 53 \<le> p" using pp(2) x(1) by linarith
  ultimately have "799 < p \<and> p < 801" by simp
  moreover have "js_mul (of_uint (img_width img)) (scale_of img) = Num p"
    using l b by (simp add: s(1) of_uint_def img_width_def)
  ultimately show ?thesis by blast
qed

lemma between_799_801:
  assumes "799 < p" "p < 801"
  shows "to_unsigned_long (Num p) = 799 \<or> to_unsigned_long (Num p) = 800"
proof -
  have "799 \<le> \<lfloor>p\<rfloor>" using assms(1) by (simp add: le_floor_iff)
  moreover have "\<lfloor>p\<rfloor> < 801" using assms(2) by (simp add: floor_less_iff)
  ultimately have "\<lfloor>p\<rfloor> = 799 \<or> \<lfloor>p\<rfloor> = 800" by linarith
  then show ?thesis using assms by auto
qed

text \<open>
  What holds of the size for every loaded background whose dimensions fit an
  \<^verbatim>\<open>unsigned long\<close>: an image at most 800 pixels wide keeps its natural size, so nothing
  is ever scaled up; a wider image gets a surface 799 or 800 pixels wide, so the width
  never exceeds 800.
\<close>

lemma surface_size_bounds:
  assumes h: "has_2d c" and l: "i_state img = Loaded"
      and r: "i_width img < 2 ^ 32" "i_height img < 2 ^ 32"
  shows "(i_width img \<le> 800 \<longrightarrow>
            map_option c_width (surface (drawCanvas mt img m drag pr (Some c))) = Some (i_width img)
            \<and> map_option c_height (surface (drawCanvas mt img m drag pr (Some c)))
                = Some (i_height img))
         \<and> (800 < i_width img \<longrightarrow>
            map_option c_width (surface (drawCanvas mt img m drag pr (Some c))) = Some 799
            \<or> map_option c_width (surface (drawCanvas mt img m drag pr (Some c))) = Some 800)"
proof -
  have small: "map_option c_width (surface (drawCanvas mt img m drag pr (Some c))) = Some (i_width img)
            \<and> map_option c_height (surface (drawCanvas mt img m drag pr (Some c)))
                = Some (i_height img)" if s: "i_width img \<le> 800"
  proof -
  have iw: "img_width img = i_width img" "img_height img = i_height img"
    using l by (simp_all add: img_width_def img_height_def)
  have wh: "js_mul (of_uint (img_width img)) (scale_of img) = Num (of_nat (i_width img))"
    "js_mul (of_uint (img_height img)) (scale_of img) = Num (of_nat (i_height img))"
    using r binary64_of_nat [of "i_width img"] binary64_of_nat [of "i_height img"]
    by (simp_all add: scale_small [OF s] iw of_uint_def)
  have sp: "sizePhase img c =
     (if js_strict_ne (of_uint (c_width c)) (Num (of_nat (i_width img)))
         \<or> js_strict_ne (of_uint (c_height c)) (Num (of_nat (i_height img)))
      then set_size (to_unsigned_long (Num (of_nat (i_width img))))
             (to_unsigned_long (Num (of_nat (i_height img)))) c
      else clearRect (Num 0) (Num 0) (of_uint (c_width c)) (of_uint (c_height c)) c)"
    by (simp only: sizePhase_cases wh)
  have "c_width (sizePhase img c) = i_width img \<and> c_height (sizePhase img c) = i_height img"
    using r unfolding sp
    by (auto simp: to_unsigned_long_of_nat set_size_def clearRect_def
        js_strict_ne_def of_uint_def simp del: to_unsigned_long.simps)
  then show ?thesis
    using drawCanvas_size [OF h, of mt img m drag pr] by simp
  qed
  have large: "map_option c_width (surface (drawCanvas mt img m drag pr (Some c))) = Some 799
            \<or> map_option c_width (surface (drawCanvas mt img m drag pr (Some c))) = Some 800"
    if b: "800 < i_width img"
  proof -
  obtain p where p: "js_mul (of_uint (img_width img)) (scale_of img) = Num p" "799 < p" "p < 801"
    using width_large [OF l b r(1)] by blast
  have t: "to_unsigned_long (Num p) = 799 \<or> to_unsigned_long (Num p) = 800"
    using between_799_801 [OF p(2) p(3)] .
  have "c_width (sizePhase img c) = 799 \<or> c_width (sizePhase img c) = 800"
  proof (cases "js_strict_ne (of_uint (c_width c)) (Num p)")
    case True
    then show ?thesis
      using t by (auto simp: sizePhase_cases p(1) set_size_def simp del: to_unsigned_long.simps)
  next
    case False
    then have e: "p = of_nat (c_width c)" by (simp add: js_strict_ne_def of_uint_def)
    then have "to_unsigned_long (Num p) = c_width c"
      using p(3) by (simp add: nat_mod_distrib nat_power_eq)
    then have "c_width c = 799 \<or> c_width c = 800" using t by simp
    then show ?thesis
      by (auto simp: sizePhase_cases set_size_def clearRect_def p(1) t
          simp del: to_unsigned_long.simps)
  qed
  then show ?thesis
    using drawCanvas_size [OF h, of mt img m drag pr] by auto
  qed
  show ?thesis using small large by blast
qed

lemma height_large:
  assumes l: "i_state img = Loaded" and w: "800 < i_width img" "i_width img < 2 ^ 32"
      and h: "i_height img < 2 ^ 32"
  shows "\<exists>y. js_mul (of_uint (img_height img)) (scale_of img) = Num y
           \<and> 0 \<le> y \<and> y < 2 ^ 32
           \<and> (of_nat (i_height img) * 800 / of_nat (i_width img) :: rat) - 1 / 2 ^ 19 \<le> y
           \<and> y \<le> of_nat (i_height img) * 800 / of_nat (i_width img) + 1 / 2 ^ 19"
proof -
  let ?w = "of_nat (i_width img) :: rat" and ?h = "of_nat (i_height img) :: rat"
  obtain s where s: "scale_of img = Num s" "0 < s" "s < 1" "\<bar>?w * s - 800\<bar> \<le> 800 / 2 ^ 53"
    using scale_large [OF l w] by blast
  have wp: "0 < ?w" using w by simp
  have hb: "0 \<le> ?h" "?h < 2 ^ 32" "?h \<le> 2 ^ 32 - 1"
  proof -
    show "0 \<le> ?h" by simp
    have "?h < of_nat (2 ^ 32)" using h by (simp only: of_nat_less_iff)
    then show "?h < 2 ^ 32" by simp
    have "i_height img \<le> 2 ^ 32 - 1" using h by simp
    then have "?h \<le> of_nat (2 ^ 32 - 1)" by (simp only: of_nat_le_iff)
    then show "?h \<le> 2 ^ 32 - 1" by simp
  qed
  define t where "t = ?h * 800 / ?w"
  define x where "x = ?h * s"
  have t: "0 \<le> t" "t \<le> 2 ^ 32 - 1"
  proof -
    show "0 \<le> t" using wp hb by (simp add: t_def)
    have "800 / ?w < 1" using w by simp
    then have "?h * (800 / ?w) \<le> ?h * 1" using hb by (intro mult_left_mono) simp_all
    then show "t \<le> 2 ^ 32 - 1" using hb by (simp add: t_def)
  qed
  have xt: "\<bar>x - t\<bar> \<le> t / 2 ^ 53"
  proof -
    have A: "\<bar>?w * s - 800\<bar> * (?h / ?w) \<le> 800 / 2 ^ 53 * (?h / ?w)"
      using s(4) wp hb by (intro mult_right_mono) simp_all
    have B: "\<bar>(?w * s - 800) * (?h / ?w)\<bar> = \<bar>?w * s - 800\<bar> * (?h / ?w)"
      using wp hb by (simp add: abs_mult)
    have C: "x - t = (?w * s - 800) * (?h / ?w)" using wp by (simp add: x_def t_def field_simps)
    have D: "800 / 2 ^ 53 * (?h / ?w) = t / 2 ^ 53" by (simp add: t_def)
    have "\<bar>x - t\<bar> = \<bar>(?w * s - 800) * (?h / ?w)\<bar>" by (simp only: C)
    also have "\<dots> = \<bar>?w * s - 800\<bar> * (?h / ?w)" by (rule B)
    also have "\<dots> \<le> 800 / 2 ^ 53 * (?h / ?w)" by (rule A)
    also have "\<dots> = t / 2 ^ 53" by (rule D)
    finally show ?thesis .
  qed
  have xb: "t - t / 2 ^ 53 \<le> x" "x \<le> t + t / 2 ^ 53"
    using xt by (simp_all only: abs_le_iff) linarith+
  have iw: "img_height img = i_height img" using l by (simp add: img_height_def)
  show ?thesis
  proof (cases "i_height img = 0")
    case True
    then have "js_mul (of_uint (img_height img)) (scale_of img) = Num 0"
      by (simp add: iw s(1) of_uint_def)
    then show ?thesis using True by simp
  next
    case False
    then have h1: "1 \<le> ?h" by (simp add: Suc_le_eq)
    have xs: "s \<le> x" using h1 s(2) by (simp add: x_def)
    have sl: "1 / 2 ^ 24 \<le> s"
    proof -
      have "?w * s \<ge> 800 - 800 / 2 ^ 53" using s(4) by (simp only: abs_le_iff) linarith
      then have "799 \<le> ?w * s" by simp
      moreover have "?w * s \<le> 2 ^ 32 * s"
      proof -
        have "?w < of_nat (2 ^ 32)" using w(2) by (simp only: of_nat_less_iff)
        then have "?w \<le> 2 ^ 32" by simp
        then show ?thesis using s(2) by (intro mult_right_mono) simp_all
      qed
      ultimately have "799 \<le> 2 ^ 32 * s" by linarith
      then show ?thesis by simp
    qed
    have lo: "pow2 (- 1022) \<le> x"
    proof -
      have "pow2 (- 1022) \<le> pow2 (- 24)" by (rule pow2_mono) simp
      then show ?thesis using sl xs by (simp add: pow2_def)
    qed
    have hi: "x < pow2 1023"
    proof -
      have "pow2 33 \<le> pow2 1023" by (rule pow2_mono) simp
      moreover have "x < 2 ^ 33" using xb(2) t by simp
      ultimately show ?thesis by (simp add: pow2_def)
    qed
    have xpos: "0 < x" using xs s(2) by linarith
    obtain y where y: "binary64_mag x = Num y" "\<bar>y - x\<bar> \<le> x / 2 ^ 53"
      using binary64_mag_error [OF lo hi] by blast
    have yb: "x - x / 2 ^ 53 \<le> y" "y \<le> x + x / 2 ^ 53"
      using rel_err_bounds [OF xpos y(2)] by simp_all
    have "js_mul (of_uint (img_height img)) (scale_of img) = Num y"
      using binary64_pos [OF xpos] y(1) by (simp add: iw s(1) of_uint_def x_def)
    moreover have "t - 1 / 2 ^ 19 \<le> y" using yb(1) xb(1) t by simp
    moreover have "y \<le> t + 1 / 2 ^ 19" using yb(2) xb(2) t by simp
    moreover have "0 \<le> y" using rel_err_bounds(3) [OF xpos y(2)] by simp
    moreover have "y < 2 ^ 32" using yb(2) xb(2) t by simp
    ultimately show ?thesis unfolding t_def by blast
  qed
qed


text \<open>
  For a background wider than 800 pixels the height of the surface is the exact scaled
  height \<open>h * 800 / w\<close> rounded down, up to the \<open>2 ^ -19\<close> by which the two roundings
  of the double arithmetic can move it before the truncation: the aspect ratio is kept
  within rounding.
\<close>

lemma surface_height_wide:
  assumes c: "has_2d c" and l: "i_state img = Loaded"
      and w: "800 < i_width img" "i_width img < 2 ^ 32" and h: "i_height img < 2 ^ 32"
  shows "\<exists>H. map_option c_height (surface (drawCanvas mt img m drag pr (Some c))) = Some H
           \<and> (of_nat (i_height img) * 800 / of_nat (i_width img) :: rat) - 1 - 1 / 2 ^ 19
                < of_nat H
           \<and> (of_nat H :: rat)
                \<le> of_nat (i_height img) * 800 / of_nat (i_width img) + 1 / 2 ^ 19"
proof -
  let ?t = "of_nat (i_height img) * 800 / of_nat (i_width img) :: rat"
  obtain y where y: "js_mul (of_uint (img_height img)) (scale_of img) = Num y"
      "0 \<le> y" "y < 2 ^ 32" "?t - 1 / 2 ^ 19 \<le> y" "y \<le> ?t + 1 / 2 ^ 19"
    using height_large [OF l w h] by blast
  define H where "H = c_height (sizePhase img c)"
  let ?W = "js_mul (of_uint (img_width img)) (scale_of img)"
  have sp: "sizePhase img c =
     (if js_strict_ne (of_uint (c_width c)) ?W \<or> js_strict_ne (of_uint (c_height c)) (Num y)
      then set_size (to_unsigned_long ?W) (to_unsigned_long (Num y)) c
      else clearRect (Num 0) (Num 0) (of_uint (c_width c)) (of_uint (c_height c)) c)"
    by (simp only: sizePhase_cases y(1))
  have "of_nat H \<le> y \<and> y - 1 < of_nat H"
  proof (cases "js_strict_ne (of_uint (c_width c)) (js_mul (of_uint (img_width img)) (scale_of img))
         \<or> js_strict_ne (of_uint (c_height c)) (Num y)")
    case True
    then have "H = to_unsigned_long (Num y)"
      unfolding H_def sp by (simp add: set_size_def del: to_unsigned_long.simps)
    moreover have "\<lfloor>y\<rfloor> < 2 ^ 32" using y(3) by (simp add: floor_less_iff)
    moreover have "0 \<le> \<lfloor>y\<rfloor>" using y(2) by simp
    ultimately have "int H = \<lfloor>y\<rfloor>" using y(2) by simp
    then have "(of_nat H :: rat) = of_int \<lfloor>y\<rfloor>" by (metis of_int_of_nat_eq)
    then show ?thesis by linarith
  next
    case False
    then have "H = c_height c" "y = of_nat (c_height c)"
      unfolding H_def sp by (simp_all add: clearRect_def js_strict_ne_def of_uint_def)
    then show ?thesis by simp
  qed
  then have "?t - 1 - 1 / 2 ^ 19 < of_nat H \<and> of_nat H \<le> ?t + 1 / 2 ^ 19"
    using y(4) y(5) by linarith
  moreover have "map_option c_height (surface (drawCanvas mt img m drag pr (Some c))) = Some H"
    using drawCanvas_size [OF c, of mt img m drag pr] by (simp add: H_def)
  ultimately show ?thesis by blast
qed

section \<open>A sticker image that cannot be decoded\<close>

lemma sizePhase_wide:
  assumes "c_width c = 800" "c_height c = 450"
  shows "sizePhase ex_wide c = clearRect (Num 0) (Num 0) (Num 800) (Num 450) c"
  using assms
  by (simp add: sizePhase_cases ex_wide_def img_width_def img_height_def scale_of_def
      MAX_WIDTH_def of_uint_def scale_1600 math_min_def js_strict_ne_def
      del: js_div.simps js_mul.simps)

lemma rotation_zero: "js_div (js_mul (Num 0) math_PI) (Num 180) = Num 0"
  by (simp add: math_PI_def)

lemma drawSticker_broken:
  assumes "cache_get m (s_id s) = Some im" "i_state im = Broken"
  shows "drawSticker m drag s c =
           (Threw InvalidStateError,
            c\<lparr>ctx := (ctx c)\<lparr>transform := transform (ctx c) @
                      [Translate (s_x s) (s_y s),
                       Rotate (js_div (js_mul (s_rotation s) math_PI) (Num 180))]\<rparr>,
              saved := ctx c # saved c\<rparr>)"
  using assms
  by (simp add: drawSticker_def complete_def drawImage_def Let_def save_def translate_def
      rotate_ctx_def)

lemma status_not_finished:
  assumes "st \<noteq> Finished"
  shows "st = Threw InvalidStateError"
proof (cases st)
  case Finished
  with assms show ?thesis by simp
next
  case (Threw e)
  then show ?thesis by (cases e) simp
qed

text \<open>
  Claim C7 asks that a sticker whose image is not ready be left out of the frame without an
  error, and that a sticker be drawn by a later pass once its image is available. The
  guard of the sticker loop is \<^verbatim>\<open>sImg && sImg.complete\<close>, and \<^verbatim>\<open>complete\<close> is also true
  of an image whose data could not be decoded. With such an image in the cache for the
  first of two stickers, the guard lets it through, \<^verbatim>\<open>drawImage\<close> raises
  \<^verbatim>\<open>InvalidStateError\<close> inside the loop and the pass ends there: nothing is painted for
  the second sticker, whose image is loaded, in this pass or in any pass that finds the
  cache so, and the render routine as a whole ends with the error. With the first image
  still loading instead, the same pass completes and paints the second sticker.
\<close>

theorem broken_sticker_raises:
  "cache_get [(''1'', ex_broken ''a''), (''2'', ex_loaded ''b'')] (s_id (ex_pair ! 0))
     = Some (ex_broken ''a'')
   \<and> complete (ex_broken ''a'')
   \<and> cache_get [(''1'', ex_broken ''a''), (''2'', ex_loaded ''b'')] (s_id (ex_pair ! 1))
     = Some (ex_loaded ''b'')
   \<and> drawStickers [(''1'', ex_broken ''a''), (''2'', ex_loaded ''b'')] None ex_pair ex_canvas
     = (Threw InvalidStateError,
        ex_canvas\<lparr>ctx := default_ctx\<lparr>transform :=
                     [Translate (Num 150) (Num 150), Rotate (Num 0)]\<rparr>,
                  saved := [default_ctx]\<rparr>)
   \<and> status (drawCanvas ex_measure ex_wide [(''1'', ex_broken ''a''), (''2'', ex_loaded ''b'')]
               None \<lparr>topText = ''hi'', bottomText = [], stickers = ex_pair\<rparr> (Some ex_canvas))
     = Threw InvalidStateError
   \<and> drawStickers [(''1'', ex_newImage ''a''), (''2'', ex_loaded ''b'')] None ex_pair ex_canvas
     = (Finished,
        ex_canvas\<lparr>painted :=
          [DrawImage (ex_loaded ''b'') (Num (- 50)) (Num (- 50)) (Num 100) (Num 100)
             [Translate (Num 180) (Num 150), Rotate (Num 0)]]\<rparr>)"
proof -
  let ?m = "[(''1'', ex_broken ''a''), (''2'', ex_loaded ''b'')]"
  have g1: "cache_get ?m (s_id (ex_pair ! 0)) = Some (ex_broken ''a'')"
    by (simp add: cache_get_def ex_pair_def newSticker_def decimal_eval)
  have g2: "cache_get ?m (s_id (ex_pair ! 1)) = Some (ex_loaded ''b'')"
    by (simp add: cache_get_def ex_pair_def newSticker_def decimal_eval)
  have k: "complete (ex_broken ''a'')" by (simp add: complete_def ex_broken_def)
  have b: "i_state (ex_broken ''a'') = Broken" by (simp add: ex_broken_def)
  have p: "ex_pair = [ex_pair ! 0, ex_pair ! 1]" by (simp add: ex_pair_def)
  have f: "s_x (ex_pair ! 0) = Num 150" "s_y (ex_pair ! 0) = Num 150"
    "s_rotation (ex_pair ! 0) = Num 0"
    by (simp_all add: ex_pair_def newSticker_def)
  have t: "drawStickers ?m None ex_pair ex_canvas
     = (Threw InvalidStateError,
        ex_canvas\<lparr>ctx := default_ctx\<lparr>transform :=
                     [Translate (Num 150) (Num 150), Rotate (Num 0)]\<rparr>,
                  saved := [default_ctx]\<rparr>)"
    by (subst p) (simp add: drawSticker_broken [OF g1 b] f rotation_zero ex_canvas_def
        default_ctx_def del: js_div.simps js_mul.simps)
  have h: "has_2d ex_canvas" by (simp add: ex_canvas_def)
  have nb: "\<not> broken_free ?m ex_pair"
    by (subst p) (simp add: broken_free_def g1 b)
  have "status (drawCanvas ex_measure ex_wide ?m None
                  \<lparr>topText = ''hi'', bottomText = [], stickers = ex_pair\<rparr> (Some ex_canvas))
          \<noteq> Finished"
    using nb by (simp add: drawCanvas_status [OF h])
  then have w: "status (drawCanvas ex_measure ex_wide ?m None
                  \<lparr>topText = ''hi'', bottomText = [], stickers = ex_pair\<rparr> (Some ex_canvas))
          = Threw InvalidStateError"
    by (rule status_not_finished)
  have bf: "broken_free [(''1'', ex_newImage ''a''), (''2'', ex_loaded ''b'')] ex_pair"
    by (simp add: broken_free_def ex_pair_def newSticker_def decimal_eval cache_get_def
        ex_newImage_def ex_loaded_def)
  have l: "drawStickers [(''1'', ex_newImage ''a''), (''2'', ex_loaded ''b'')] None ex_pair ex_canvas
     = (Finished,
        ex_canvas\<lparr>painted :=
          [DrawImage (ex_loaded ''b'') (Num (- 50)) (Num (- 50)) (Num 100) (Num 100)
             [Translate (Num 180) (Num 150), Rotate (Num 0)]]\<rparr>)"
    unfolding drawStickers_finished [OF bf]
    by (simp add: ex_pair_def newSticker_def decimal_eval stickerPaint_def cache_get_def
        imagePaint_def ex_newImage_def ex_loaded_def ex_canvas_def default_ctx_def math_PI_def)
  show ?thesis using g1 k g2 t w l by (intro conjI)
qed

text \<open>
  Claim C5 asks that two passes in succession with the same inputs give the same output.
  With a sticker whose cached image is broken, the first pass paints the background and
  raises inside the sticker loop, after \<^verbatim>\<open>save\<close>, \<^verbatim>\<open>translate\<close> and \<^verbatim>\<open>rotate\<close> and
  before \<^verbatim>\<open>restore\<close>. The second pass, with the same inputs, finds the surface at the
  size of the image, so it calls \<^verbatim>\<open>clearRect\<close> and draws the background under the
  transform that the first pass left: the frame of the first pass is cleared only in
  part and the background is painted a second time, displaced by the position of the
  sticker. The outcome of the second pass differs from that of the first, and each
  further pass adds to the transform.
\<close>

theorem broken_sticker_second_pass:
  "transform (ctx ex_canvas) = []
   \<and> drawCanvas ex_measure ex_wide [(''1'', ex_broken ''a'')] None ex_props (Some ex_canvas)
     = \<lparr>surface = Some ex_leaked, onload_set = False, status = Threw InvalidStateError\<rparr>
   \<and> drawCanvas ex_measure ex_wide [(''1'', ex_broken ''a'')] None ex_props
        (surface (drawCanvas ex_measure ex_wide [(''1'', ex_broken ''a'')] None ex_props
           (Some ex_canvas)))
     = \<lparr>surface = Some
          (ex_canvas\<lparr>ctx := default_ctx\<lparr>transform :=
                        [Translate (Num 150) (Num 150), Rotate (Num 0),
                         Translate (Num 150) (Num 150), Rotate (Num 0)]\<rparr>,
                     saved := [default_ctx\<lparr>transform :=
                                 [Translate (Num 150) (Num 150), Rotate (Num 0)]\<rparr>,
                               default_ctx],
                     painted :=
                       [DrawImage ex_wide (Num 0) (Num 0) (Num 800) (Num 450) [],
                        ClearRect (Num 0) (Num 0) (Num 800) (Num 450)
                          [Translate (Num 150) (Num 150), Rotate (Num 0)],
                        DrawImage ex_wide (Num 0) (Num 0) (Num 800) (Num 450)
                          [Translate (Num 150) (Num 150), Rotate (Num 0)]]\<rparr>),
        onload_set = False, status = Threw InvalidStateError\<rparr>
   \<and> drawCanvas ex_measure ex_wide [(''1'', ex_broken ''a'')] None ex_props
        (surface (drawCanvas ex_measure ex_wide [(''1'', ex_broken ''a'')] None ex_props
           (Some ex_canvas)))
     \<noteq> drawCanvas ex_measure ex_wide [(''1'', ex_broken ''a'')] None ex_props (Some ex_canvas)"
proof -
  let ?second = "\<lparr>surface = Some
          (ex_canvas\<lparr>ctx := default_ctx\<lparr>transform :=
                        [Translate (Num 150) (Num 150), Rotate (Num 0),
                         Translate (Num 150) (Num 150), Rotate (Num 0)]\<rparr>,
                     saved := [default_ctx\<lparr>transform :=
                                 [Translate (Num 150) (Num 150), Rotate (Num 0)]\<rparr>,
                               default_ctx],
                     painted :=
                       [DrawImage ex_wide (Num 0) (Num 0) (Num 800) (Num 450) [],
                        ClearRect (Num 0) (Num 0) (Num 800) (Num 450)
                          [Translate (Num 150) (Num 150), Rotate (Num 0)],
                        DrawImage ex_wide (Num 0) (Num 0) (Num 800) (Num 450)
                          [Translate (Num 150) (Num 150), Rotate (Num 0)]]\<rparr>),
        onload_set = False, status = Threw InvalidStateError\<rparr>"
  have i: "transform (ctx ex_canvas) = []" by (simp add: ex_canvas_def default_ctx_def)
  have g: "cache_get [(''1'', ex_broken ''a'')] (s_id (newSticker 1 ''a'')) = Some (ex_broken ''a'')"
    by (simp add: cache_get_def newSticker_def decimal_eval)
  have b: "i_state (ex_broken ''a'') = Broken" by (simp add: ex_broken_def)
  have f: "s_x (newSticker 1 ''a'') = Num 150" "s_y (newSticker 1 ''a'') = Num 150"
    "s_rotation (newSticker 1 ''a'') = Num 0"
    by (simp_all add: newSticker_def)
  have w: "i_state ex_wide = Loaded" "i_width ex_wide = 1600" "i_height ex_wide = 900"
    "complete ex_wide"
    by (simp_all add: ex_wide_def complete_def)
  have h1: "has_2d ex_canvas" by (simp add: ex_canvas_def)
  have h2: "has_2d ex_leaked" by (simp add: ex_leaked_def ex_canvas_def)
  have s1: "sizePhase ex_wide ex_canvas = ex_canvas"
    by (simp add: sizePhase_wide ex_canvas_def clearRect_def default_ctx_def of_uint_def)
  have s2: "sizePhase ex_wide ex_leaked =
      ex_leaked\<lparr>painted := painted ex_leaked @
        [ClearRect (Num 0) (Num 0) (Num 800) (Num 450)
           [Translate (Num 150) (Num 150), Rotate (Num 0)]]\<rparr>"
    by (simp add: sizePhase_wide ex_leaked_def ex_canvas_def clearRect_def default_ctx_def)
  have first: "drawCanvas ex_measure ex_wide [(''1'', ex_broken ''a'')] None ex_props (Some ex_canvas)
     = \<lparr>surface = Some ex_leaked, onload_set = False, status = Threw InvalidStateError\<rparr>"
    by (simp add: drawCanvas_def Let_def h1 s1 drawImage_def w ex_props_def
          drawSticker_broken [OF g b] f rotation_zero del: js_div.simps js_mul.simps)
       (simp add: ex_leaked_def ex_canvas_def default_ctx_def of_uint_def)
  have second: "drawCanvas ex_measure ex_wide [(''1'', ex_broken ''a'')] None ex_props (Some ex_leaked)
     = ?second"
    by (simp add: drawCanvas_def Let_def h2 s2 drawImage_def w ex_props_def
          drawSticker_broken [OF g b] f rotation_zero del: js_div.simps js_mul.simps)
       (simp add: ex_leaked_def ex_canvas_def default_ctx_def of_uint_def)
  have again: "drawCanvas ex_measure ex_wide [(''1'', ex_broken ''a'')] None ex_props
        (surface (drawCanvas ex_measure ex_wide [(''1'', ex_broken ''a'')] None ex_props
           (Some ex_canvas))) = ?second"
    by (simp only: first outcome.simps second)
  have "?second \<noteq> \<lparr>surface = Some ex_leaked, onload_set = False,
                       status = Threw InvalidStateError\<rparr>"
    by (simp add: ex_leaked_def ex_canvas_def)
  then have ne: "drawCanvas ex_measure ex_wide [(''1'', ex_broken ''a'')] None ex_props
        (surface (drawCanvas ex_measure ex_wide [(''1'', ex_broken ''a'')] None ex_props
           (Some ex_canvas)))
     \<noteq> drawCanvas ex_measure ex_wide [(''1'', ex_broken ''a'')] None ex_props (Some ex_canvas)"
    unfolding again unfolding first .
  show ?thesis using i first again ne by (intro conjI)
qed

end
